theory Spec2Isabelle
  imports Main "HOL-Library.Sublist"
begin

section \<open>Strings\<close>

text \<open>
  A Python \<open>str\<close> is a sequence of code points. It is modelled as a \<open>string\<close> whose
  characters are the code points below 256; that covers every constant of the program
  (the a with a tilde of \<open>Sao Paulo\<close> has the code point 0xE3) and every ASCII input.
\<close>

definition code :: "char \<Rightarrow> int" where
  "code c = of_char c"

text \<open>\<open>q.replace(',', '.')\<close>\<close>

definition replace_comma :: "string \<Rightarrow> string" where
  "replace_comma q = map (\<lambda>c. if c = CHR '','' then CHR ''.'' else c) q"

text \<open>\<open>needle in hay\<close> on strings: \<open>needle\<close> occurs as a contiguous run of \<open>hay\<close>.\<close>

fun contains :: "string \<Rightarrow> string \<Rightarrow> bool" where
  "contains needle [] = (needle = [])"
| "contains needle (c # cs) = (prefix needle (c # cs) \<or> contains needle cs)"

text \<open>
  \<open>url, qty_raw = linha.rsplit(':', 1)\<close>: the line is cut at its last colon. Without a
  colon \<open>rsplit\<close> returns one piece, the unpacking raises \<open>ValueError\<close>, and the model
  returns \<open>None\<close>.
\<close>

definition rsplit_colon :: "string \<Rightarrow> (string \<times> string) option" where
  "rsplit_colon linha =
     (if CHR '':'' \<in> set linha
      then Some (rev (tl (dropWhile (\<lambda>c. c \<noteq> CHR '':'') (rev linha))),
                 rev (takeWhile (\<lambda>c. c \<noteq> CHR '':'') (rev linha)))
      else None)"

section \<open>Python floats: \<open>float(str)\<close> and the format \<open>.2f\<close>\<close>

text \<open>
  A float is an IEEE-754 binary64 value. A finite one is kept exactly, as sign, integer
  significand \<open>m\<close> and binary exponent \<open>p\<close>: its value is \<open>\<plusminus> m * 2 ^ p\<close>.
\<close>

datatype pyfloat = Finite bool int int | Infinity bool | NaN

definition is_digit :: "char \<Rightarrow> bool" where
  "is_digit c \<longleftrightarrow> 48 \<le> code c \<and> code c \<le> 57"

definition is_space :: "char \<Rightarrow> bool" where
  "is_space c \<longleftrightarrow> (9 \<le> code c \<and> code c \<le> 13) \<or> code c = 32"

definition to_lower :: "char \<Rightarrow> char" where
  "to_lower c = (if 65 \<le> code c \<and> code c \<le> 90 then char_of (code c + 32) else c)"

definition digit_char :: "int \<Rightarrow> char" where
  "digit_char d = char_of (48 + d)"

definition int_of_digits :: "string \<Rightarrow> int" where
  "int_of_digits ds = foldl (\<lambda>a c. 10 * a + (code c - 48)) 0 ds"

text \<open>
  A non-ASCII string is first rewritten: a Unicode space (below 256 these are 0x85 and
  0xA0) becomes a blank, and the string is cut after the first other character from
  127 up, which is replaced by a question mark. An ASCII string is taken as it is.
\<close>

fun to_ascii :: "string \<Rightarrow> string" where
  "to_ascii [] = []"
| "to_ascii (c # cs) =
     (if code c < 127 then c # to_ascii cs
      else if code c = 133 \<or> code c = 160 then CHR '' '' # to_ascii cs
      else ''?'')"

definition ascii_form :: "string \<Rightarrow> string" where
  "ascii_form s = (if list_all (\<lambda>c. code c < 128) s then s else to_ascii s)"

text \<open>
  Underscores group digits: each must stand between two digits. \<open>strip_underscores\<close>
  walks the string with the previous character and drops them, or fails.
\<close>

fun strip_underscores :: "char \<Rightarrow> string \<Rightarrow> string option" where
  "strip_underscores prev [] = (if prev = CHR ''_'' then None else Some [])"
| "strip_underscores prev (c # cs) =
     (if c = CHR ''_''
      then (if is_digit prev then strip_underscores c cs else None)
      else if prev = CHR ''_'' \<and> \<not> is_digit c then None
      else map_option ((#) c) (strip_underscores c cs))"

text \<open>The number read so far: sign, the digits before and after the point, the exponent.\<close>

definition split_sign :: "string \<Rightarrow> bool \<times> string" where
  "split_sign s =
     (case s of
        c # cs \<Rightarrow> if c = CHR ''-'' then (True, cs) else if c = CHR ''+'' then (False, cs)
                  else (False, s)
      | [] \<Rightarrow> (False, s))"

text \<open>
  The exponent part \<open>e\<close>, optional sign, at least one digit. When no digit follows, the
  letter is not part of the number and is left unread.
\<close>

definition parse_exponent :: "string \<Rightarrow> int \<times> string" where
  "parse_exponent s =
     (case s of
        c # cs \<Rightarrow>
          if c = CHR ''e'' \<or> c = CHR ''E''
          then (let (neg, r) = split_sign cs;
                    ds = takeWhile is_digit r
                in if ds = [] then (0, s)
                   else ((if neg then - int_of_digits ds else int_of_digits ds),
                         dropWhile is_digit r))
          else (0, s)
      | [] \<Rightarrow> (0, s))"

text \<open>
  A decimal numeral: the result is the sign, the digits as an integer and the
  power of ten, so that the numeral denotes \<open>\<plusminus> d * 10 ^ e\<close>, and what is left unread.
\<close>

definition parse_decimal :: "string \<Rightarrow> ((bool \<times> int \<times> int) \<times> string) option" where
  "parse_decimal s =
     (let (neg, r0) = split_sign s;
          ip = takeWhile is_digit r0;
          r1 = dropWhile is_digit r0;
          (fp, r2) = (case r1 of
                        c # cs \<Rightarrow> if c = CHR ''.''
                                  then (takeWhile is_digit cs, dropWhile is_digit cs)
                                  else ([], r1)
                      | [] \<Rightarrow> ([], r1))
      in if ip = [] \<and> fp = [] then None
         else (let (ex, r3) = parse_exponent r2
               in Some ((neg, int_of_digits (ip @ fp), ex - int (length fp)), r3)))"

text \<open>The words \<open>inf\<close>, \<open>infinity\<close> and \<open>nan\<close>, in any case, with an optional sign.\<close>

definition parse_inf_or_nan :: "string \<Rightarrow> (pyfloat \<times> string) option" where
  "parse_inf_or_nan s =
     (let (neg, r) = split_sign s; low = map to_lower r
      in if prefix ''inf'' low
         then (if prefix ''inity'' (drop 3 low) then Some (Infinity neg, drop 8 r)
               else Some (Infinity neg, drop 3 r))
         else if prefix ''nan'' low then Some (NaN, drop 3 r)
         else None)"

text \<open>
  Correct rounding of the positive rational \<open>num / den\<close> to binary64, ties to even: the
  significand has 53 bits, the least exponent is \<open>-1074\<close>, and a result of \<open>2 ^ 1024\<close>
  or more is an infinity.
\<close>

function bit_length :: "int \<Rightarrow> int" where
  "bit_length n = (if n \<le> 0 then 0 else 1 + bit_length (n div 2))"
  by pat_completeness auto
termination
  by (relation "measure nat") auto

declare bit_length.simps [simp del]

definition round_half_even :: "int \<Rightarrow> int \<Rightarrow> int" where
  "round_half_even n d =
     (let q = n div d; r = n mod d
      in if 2 * r < d then q
         else if d < 2 * r then q + 1
         else if even q then q else q + 1)"

definition floor_log2 :: "int \<Rightarrow> int \<Rightarrow> int" where
  "floor_log2 num den =
     (let k = bit_length num - bit_length den
      in if (if 0 \<le> k then den * 2 ^ nat k \<le> num else den \<le> num * 2 ^ nat (- k))
         then k else k - 1)"

definition round_to_double :: "bool \<Rightarrow> int \<Rightarrow> int \<Rightarrow> pyfloat" where
  "round_to_double neg num den =
     (if num = 0 then Finite neg 0 0
      else (let p = max (floor_log2 num den - 52) (- 1074);
                m = (if 0 \<le> p then round_half_even num (den * 2 ^ nat p)
                     else round_half_even (num * 2 ^ nat (- p)) den)
            in if 0 \<le> p \<and> 2 ^ 1024 \<le> m * 2 ^ nat p then Infinity neg
               else Finite neg m p))"

definition decimal_to_double :: "bool \<times> int \<times> int \<Rightarrow> pyfloat" where
  "decimal_to_double v =
     (case v of (neg, d, e) \<Rightarrow>
        if 0 \<le> e then round_to_double neg (d * 10 ^ nat e) 1
        else round_to_double neg d (10 ^ nat (- e)))"

text \<open>
  After the blanks at both ends are dropped, the whole rest must be one numeral or one
  of the special words.
\<close>

definition float_inner :: "string \<Rightarrow> pyfloat option" where
  "float_inner s =
     (let t = rev (dropWhile is_space (rev (dropWhile is_space s)))
      in if t = [] then None
         else (case parse_decimal t of
                 Some (v, r) \<Rightarrow> if r = [] then Some (decimal_to_double v) else None
               | None \<Rightarrow>
                   (case parse_inf_or_nan t of
                      Some (x, r) \<Rightarrow> if r = [] then Some x else None
                    | None \<Rightarrow> None)))"

text \<open>
  \<open>float(s)\<close> for a string \<open>s\<close>; \<open>None\<close> is \<open>ValueError\<close>. A string with a NUL character
  is never a number. The limits of the C implementation on inputs of more than
  \<open>10 ^ 9\<close> digits are left out.
\<close>

definition py_float :: "string \<Rightarrow> pyfloat option" where
  "py_float s =
     (let a = ascii_form s
      in if CHR 0x00 \<in> set a then None
         else if CHR ''_'' \<in> set a
         then (case strip_underscores (CHR 0x00) a of
                 None \<Rightarrow> None
               | Some t \<Rightarrow> float_inner t)
         else float_inner a)"

text \<open>
  \<open>f"{x:.2f}"\<close>: the exact value is rounded to hundredths, ties to even, and written
  with a sign, the integer part, a point and two digits; the special values are written
  as words.
\<close>

function dec_digits :: "int \<Rightarrow> string" where
  "dec_digits n =
     (if n < 10 then [digit_char n] else dec_digits (n div 10) @ [digit_char (n mod 10)])"
  by pat_completeness auto
termination
  by (relation "measure nat") auto

declare dec_digits.simps [simp del]

definition hundredths :: "int \<Rightarrow> int \<Rightarrow> int" where
  "hundredths m p =
     (if 0 \<le> p then m * 100 * 2 ^ nat p else round_half_even (m * 100) (2 ^ nat (- p)))"

fun format_2f :: "pyfloat \<Rightarrow> string" where
  "format_2f (Finite neg m p) =
     (let n = hundredths m p
      in (if neg then ''-'' else '''') @ dec_digits (n div 100) @ ''.''
           @ [digit_char (n div 10 mod 10), digit_char (n mod 10)])"
| "format_2f (Infinity neg) = (if neg then ''-inf'' else ''inf'')"
| "format_2f NaN = ''nan''"

section \<open>The browser and its trace\<close>

text \<open>
  The browser-automation library is outside the program. Each call the program makes
  is an \<open>action\<close>; the run keeps the list of the calls made so far, each with how it
  ended, and the browser is a set of oracles that answer the next call from that
  history. Any sequential behaviour of a real browser is one such oracle.
\<close>

datatype action =
    PlaywrightStart | Launch | NewContext | NewPage | SetDefaultTimeout int
  | Goto string | Fill string string | Click string | Press string
  | ExpectResponse | AwaitResponse | Content | IsChecked string | Check string
  | ReadUrl | Delay nat nat | CloseContext | CloseBrowser | PlaywrightStop

datatype outcome = Raised | Returned | RetBool bool | RetStr string

type_synonym event = "action \<times> outcome"

type_synonym trace = "event list"

record browser =
  raises :: "trace \<Rightarrow> action \<Rightarrow> bool"
  checked :: "trace \<Rightarrow> bool"
  html :: "trace \<Rightarrow> string"
  cur_url :: "trace \<Rightarrow> string"

datatype exn = ValueError | PlaywrightError action | HTTPException nat string

text \<open>
  Setting the default timeout, reading \<open>page.url\<close> and sleeping are local: they never
  raise. Every other call raises when the oracle says so, and what it raises is an
  \<open>Exception\<close>, which every \<open>except Exception\<close> of the program catches; the
  cancellation of the task, which is none, is outside the model. Bounds of a delay are
  in milliseconds. The calls of the logger change nothing and are left out.
\<close>

fun never_raises :: "action \<Rightarrow> bool" where
  "never_raises (SetDefaultTimeout t) = True"
| "never_raises ReadUrl = True"
| "never_raises (Delay lo hi) = True"
| "never_raises a = False"

definition call :: "browser \<Rightarrow> trace \<Rightarrow> action \<Rightarrow> exn option \<times> trace" where
  "call b tr a =
     (if \<not> never_raises a \<and> raises b tr a
      then (Some (PlaywrightError a), tr @ [(a, Raised)])
      else (None, tr @ [(a, Returned)]))"

definition human_delay :: "trace \<Rightarrow> nat \<Rightarrow> nat \<Rightarrow> trace" where
  "human_delay tr lo hi = tr @ [(Delay lo hi, Returned)]"

definition page_content :: "browser \<Rightarrow> trace \<Rightarrow> (exn + string) \<times> trace" where
  "page_content b tr =
     (if raises b tr Content then (Inl (PlaywrightError Content), tr @ [(Content, Raised)])
      else (Inr (html b tr), tr @ [(Content, RetStr (html b tr))]))"

definition is_checked :: "browser \<Rightarrow> trace \<Rightarrow> string \<Rightarrow> (exn + bool) \<times> trace" where
  "is_checked b tr sel =
     (if raises b tr (IsChecked sel)
      then (Inl (PlaywrightError (IsChecked sel)), tr @ [(IsChecked sel, Raised)])
      else (Inr (checked b tr), tr @ [(IsChecked sel, RetBool (checked b tr))]))"

definition page_url :: "browser \<Rightarrow> trace \<Rightarrow> string \<times> trace" where
  "page_url b tr = (cur_url b tr, tr @ [(ReadUrl, RetStr (cur_url b tr))])"

text \<open>
  The statements of one \<open>try\<close> block, in order: the first call that raises ends the
  block, and the calls after it are not made.
\<close>

fun steps :: "browser \<Rightarrow> trace \<Rightarrow> action list \<Rightarrow> exn option \<times> trace" where
  "steps b tr [] = (None, tr)"
| "steps b tr (a # as) =
     (case call b tr a of
        (Some e, tr') \<Rightarrow> (Some e, tr')
      | (None, tr') \<Rightarrow> steps b tr' as)"

section \<open>The request and the result\<close>

record CheckoutInfo =
  email :: string
  first_name :: string
  last_name :: string
  cpf :: string
  cep :: string
  address_1 :: string
  number :: string
  address_2 :: "string option"
  neighborhood :: string
  city :: string
  state :: string
  phone :: string

record Payload =
  produtos :: "string list"
  checkout :: CheckoutInfo

record ItemOutcome =
  url :: string
  qty :: string
  added :: bool

text \<open>
  The result dictionary: \<open>items\<close>, \<open>checkout\<close> (here \<open>checkout_state\<close>) and, once the
  order is sent, \<open>redirect_url\<close>. It starts with no items and the state \<open>pending\<close>;
  the function returns it only after the submission step has set the state and the
  address, so the model builds the record there from the items collected.
\<close>

record Result =
  items :: "ItemOutcome list"
  checkout_state :: string
  redirect_url :: "string option"

text \<open>The settings read from the environment when the module is loaded.\<close>

record config =
  CHECKOUT_URL :: string
  ACTION_TIMEOUT_MS :: int

section \<open>\<open>normalize_qty\<close>\<close>

text \<open>\<open>f"{float(q.replace(',', '.')):.2f}"\<close>\<close>

definition normalize_qty :: "string \<Rightarrow> exn + string" where
  "normalize_qty q =
     (case py_float (replace_comma q) of
        None \<Rightarrow> Inl ValueError
      | Some x \<Rightarrow> Inr (format_2f x))"

section \<open>\<open>process_request\<close>\<close>

subsection \<open>The loop over the product lines\<close>

definition add_to_cart_button :: string where
  \<open>add_to_cart_button = ''button[name="add-to-cart"]''\<close>

text \<open>
  The \<open>try\<close> block that adds one product: fill the quantity, wait, and click inside
  \<open>page.expect_response\<close>, whose exit awaits the matching response when the click
  returned.
\<close>

definition add_to_cart :: "string \<Rightarrow> action list" where
  "add_to_cart q =
     [Fill ''input.qty'' q, Delay 300 800, ExpectResponse, Click add_to_cart_button,
      AwaitResponse]"

text \<open>
  One pass of the loop body. The quantity is normalised outside every \<open>try\<close>, so its
  \<open>ValueError\<close> leaves the loop. A failed navigation goes to the next line. A failed
  addition reads the page (only to log an out-of-stock message; the read itself may
  raise, and nothing catches that) and records the item as not added.
\<close>

definition process_line ::
    "browser \<Rightarrow> trace \<Rightarrow> ItemOutcome list \<Rightarrow> string \<Rightarrow> (exn + ItemOutcome list) \<times> trace" where
  "process_line b tr its linha =
     (case rsplit_colon linha of
        None \<Rightarrow> (Inr its, tr)
      | Some (u, qty_raw) \<Rightarrow>
          (case normalize_qty qty_raw of
             Inl e \<Rightarrow> (Inl e, tr)
           | Inr q \<Rightarrow>
               (case call b tr (Goto u) of
                  (Some e, tr1) \<Rightarrow> (Inr its, tr1)
                | (None, tr1) \<Rightarrow>
                    (case steps b tr1 (add_to_cart q) of
                       (None, tr2) \<Rightarrow>
                         (Inr (its @ [\<lparr>url = u, qty = q, added = True\<rparr>]),
                          human_delay tr2 500 1200)
                     | (Some e, tr2) \<Rightarrow>
                         (case page_content b tr2 of
                            (Inl e', tr3) \<Rightarrow> (Inl e', tr3)
                          | (Inr h, tr3) \<Rightarrow>
                              (Inr (its @ [\<lparr>url = u, qty = q, added = False\<rparr>]), tr3))))))"

fun cart_loop ::
    "browser \<Rightarrow> trace \<Rightarrow> ItemOutcome list \<Rightarrow> string list \<Rightarrow> (exn + ItemOutcome list) \<times> trace" where
  "cart_loop b tr its [] = (Inr its, tr)"
| "cart_loop b tr its (linha # rest) =
     (case process_line b tr its linha of
        (Inl e, tr') \<Rightarrow> (Inl e, tr')
      | (Inr its', tr') \<Rightarrow> cart_loop b tr' its' rest)"

subsection \<open>The checkout form\<close>

definition mapping :: "CheckoutInfo \<Rightarrow> (string \<times> string) list" where
  "mapping c =
     [(''billing_email'', email c),
      (''billing_first_name'', first_name c),
      (''billing_last_name'', last_name c),
      (''billing_cpf'', cpf c),
      (''billing_postcode'', cep c),
      (''billing_address_1'', address_1 c),
      (''billing_number'', number c),
      (''billing_address_2'', (case address_2 c of None \<Rightarrow> [] | Some v \<Rightarrow> v)),
      (''billing_neighborhood'', neighborhood c),
      (''billing_city'', city c),
      (''billing_phone'', phone c)]"

text \<open>Each field is filled in its own \<open>try\<close>; a failure is logged and the loop goes on.\<close>

fun fill_fields :: "browser \<Rightarrow> trace \<Rightarrow> (string \<times> string) list \<Rightarrow> trace" where
  "fill_fields b tr [] = tr"
| "fill_fields b tr ((field, v) # rest) =
     fill_fields b (human_delay (snd (call b tr (Fill (''#'' @ field) v))) 200 600) rest"

definition state_container :: string where
  "state_container = ''#select2-billing_state-container''"

definition search_field :: string where
  "search_field = ''.select2-search__field''"

definition sao_paulo :: string where
  "sao_paulo = ''S'' @ [CHR 0xE3] @ ''o Paulo''"

definition region_actions :: "action list" where
  "region_actions =
     [Click state_container, Delay 400 700, Fill search_field sao_paulo, Press ''Enter'',
      Delay 400 700,
      Click state_container, Fill search_field sao_paulo, Press ''Enter'']"

text \<open>The region is chosen in one \<open>try\<close> block whose exception is logged and dropped.\<close>

definition select_region :: "browser \<Rightarrow> trace \<Rightarrow> trace" where
  "select_region b tr = snd (steps b tr region_actions)"

subsection \<open>Payment and submission\<close>

definition error_banner :: string where
  "error_banner = ''Ocorreu um erro ao processar seu pedido''"

definition banner_detail :: string where
  "banner_detail = ''Erro ao processar pedido na p'' @ [CHR 0xE1] @ ''gina WooCommerce.''"

definition submit_detail :: string where
  "submit_detail = ''Falha ao finalizar o pedido ou redirecionar.''"

definition pix :: string where
  "pix = ''#payment_method_asaas-pix''"

definition place_order :: string where
  "place_order = ''#place_order''"

definition select_payment :: "browser \<Rightarrow> trace \<Rightarrow> trace" where
  "select_payment b tr =
     (case is_checked b tr pix of
        (Inl e, tr1) \<Rightarrow> tr1
      | (Inr radio_checked, tr1) \<Rightarrow>
          if \<not> radio_checked then snd (call b tr1 (Check pix)) else tr1)"

definition submit_order ::
    "browser \<Rightarrow> trace \<Rightarrow> ItemOutcome list \<Rightarrow> (exn + Result) \<times> trace" where
  "submit_order b tr its =
     (case call b tr (Click place_order) of
        (Some e, tr1) \<Rightarrow> (Inl (HTTPException 500 submit_detail), tr1)
      | (None, tr1) \<Rightarrow>
          (case page_url b (human_delay tr1 6000 20000) of
             (final_url, tr2) \<Rightarrow>
               (Inr \<lparr>items = its, checkout_state = ''pedido_enviado'',
                     redirect_url = Some final_url\<rparr>, tr2)))"

subsection \<open>The whole run\<close>

text \<open>The run from the first product line to the end of region selection.\<close>

definition to_checkout_form ::
    "config \<Rightarrow> browser \<Rightarrow> Payload \<Rightarrow> trace \<Rightarrow> (exn + ItemOutcome list) \<times> trace" where
  "to_checkout_form cfg b data tr =
     (case cart_loop b tr [] (produtos data) of
        (Inl e, tr1) \<Rightarrow> (Inl e, tr1)
      | (Inr its, tr1) \<Rightarrow>
          (case call b tr1 (Goto (CHECKOUT_URL cfg)) of
             (Some e, tr2) \<Rightarrow> (Inl e, tr2)
           | (None, tr2) \<Rightarrow>
               (Inr its, select_region b (fill_fields b tr2 (mapping (checkout data))))))"

text \<open>From the scan for the error banner to the end of the \<open>try\<close> block.\<close>

definition from_banner_scan ::
    "browser \<Rightarrow> trace \<Rightarrow> ItemOutcome list \<Rightarrow> (exn + Result) \<times> trace" where
  "from_banner_scan b tr its =
     (case page_content b tr of
        (Inl e, tr1) \<Rightarrow> (Inl e, tr1)
      | (Inr h, tr1) \<Rightarrow>
          if contains error_banner h then (Inl (HTTPException 500 banner_detail), tr1)
          else submit_order b (select_payment b tr1) its)"

text \<open>The body of the outer \<open>try\<close>.\<close>

definition try_body :: "config \<Rightarrow> browser \<Rightarrow> Payload \<Rightarrow> trace \<Rightarrow> (exn + Result) \<times> trace" where
  "try_body cfg b data tr =
     (case to_checkout_form cfg b data tr of
        (Inl e, tr1) \<Rightarrow> (Inl e, tr1)
      | (Inr its, tr1) \<Rightarrow> from_banner_scan b tr1 its)"

text \<open>
  The \<open>finally\<close> block: sleep ten seconds (a delay with equal bounds), close the
  context, close the browser. An exception raised here replaces the outcome of the
  body.
\<close>

definition finally_close :: "browser \<Rightarrow> (exn + Result) \<times> trace \<Rightarrow> (exn + Result) \<times> trace" where
  "finally_close b r =
     (case steps b (human_delay (snd r) 10000 10000) [CloseContext, CloseBrowser] of
        (Some e, tr) \<Rightarrow> (Inl e, tr)
      | (None, tr) \<Rightarrow> (fst r, tr))"

definition acquire :: "config \<Rightarrow> action list" where
  "acquire cfg = [Launch, NewContext, NewPage, SetDefaultTimeout (ACTION_TIMEOUT_MS cfg)]"

text \<open>
  Inside \<open>async with async_playwright()\<close>: the browser, context and page are created
  before the \<open>try\<close>, so a failure there is not followed by the \<open>finally\<close> block.
\<close>

definition in_playwright :: "config \<Rightarrow> browser \<Rightarrow> Payload \<Rightarrow> trace \<Rightarrow> (exn + Result) \<times> trace" where
  "in_playwright cfg b data tr =
     (case steps b tr (acquire cfg) of
        (Some e, tr1) \<Rightarrow> (Inl e, tr1)
      | (None, tr1) \<Rightarrow> finally_close b (try_body cfg b data tr1))"

definition process_request :: "config \<Rightarrow> browser \<Rightarrow> Payload \<Rightarrow> (exn + Result) \<times> trace" where
  "process_request cfg b data =
     (case call b [] PlaywrightStart of
        (Some e, tr) \<Rightarrow> (Inl e, tr)
      | (None, tr) \<Rightarrow>
          (case in_playwright cfg b data tr of
             (r, tr1) \<Rightarrow>
               (case call b tr1 PlaywrightStop of
                  (Some e, tr2) \<Rightarrow> (Inl e, tr2)
                | (None, tr2) \<Rightarrow> (r, tr2))))"

subsection \<open>The endpoint\<close>

text \<open>
  \<open>checkout_endpoint\<close> adds \<open>status = "success"\<close> to the result, and turns every
  exception \<open>e\<close> into the reply 500 with the detail \<open>str(e)\<close>, written \<open>Http500 e\<close>. The
  duration it also adds is wall-clock time and is left out.
\<close>

record Response = Result +
  status :: string

datatype reply = Http200 Response | Http500 exn

definition checkout_endpoint :: "config \<Rightarrow> browser \<Rightarrow> Payload \<Rightarrow> reply" where
  "checkout_endpoint cfg b payload =
     (case fst (process_request cfg b payload) of
        Inl e \<Rightarrow> Http500 e
      | Inr r \<Rightarrow>
          Http200 \<lparr>items = items r, checkout_state = checkout_state r,
                   redirect_url = redirect_url r, status = ''success''\<rparr>)"

section \<open>Browsers and requests used as examples\<close>

definition default_config :: config where
  "default_config =
     \<lparr>CHECKOUT_URL = ''https://naturalvalle.com.br/checkout/'', ACTION_TIMEOUT_MS = 15000\<rparr>"

definition billing :: CheckoutInfo where
  "billing =
     \<lparr>email = ''a@b.c'', first_name = ''Ana'', last_name = ''Silva'', cpf = ''00000000000'',
      cep = ''01000000'', address_1 = ''Rua A'', number = ''1'', address_2 = None,
      neighborhood = ''Centro'', city = ''Campinas'', state = ''SP'', phone = ''11999999999''\<rparr>"

definition one_product :: Payload where
  "one_product = \<lparr>produtos = [''https://shop/p1:0,05''], checkout = billing\<rparr>"

definition order_received :: string where
  "order_received = ''https://naturalvalle.com.br/checkout/order-received/1/''"

text \<open>A browser in which no call raises and the order page follows the click.\<close>

definition calm :: browser where
  "calm =
     \<lparr>raises = (\<lambda>tr a. False), checked = (\<lambda>tr. False), html = (\<lambda>tr. []),
      cur_url = (\<lambda>tr. order_received)\<rparr>"

text \<open>The same browser, except that the calls in \<open>bad\<close> raise.\<close>

definition failing :: "action set \<Rightarrow> browser" where
  "failing bad = calm\<lparr>raises := (\<lambda>tr a. a \<in> bad)\<rparr>"

text \<open>The order button leads nowhere: the page is still the checkout page.\<close>

definition stays_on_checkout :: browser where
  "stays_on_checkout = calm\<lparr>cur_url := (\<lambda>tr. CHECKOUT_URL default_config)\<rparr>"

text \<open>The checkout page shows the error banner.\<close>

definition shows_banner :: browser where
  "shows_banner =
     calm\<lparr>html := (\<lambda>tr. ''<li>Ocorreu um erro ao processar seu pedido.</li>'')\<rparr>"

text \<open>The payment option is already selected.\<close>

definition pix_preselected :: browser where
  "pix_preselected = calm\<lparr>checked := (\<lambda>tr. True)\<rparr>"

definition two_products :: Payload where
  "two_products =
     \<lparr>produtos = [''https://shop/p1:1'', ''https://shop/p2:2''], checkout = billing\<rparr>"

definition bad_quantity :: Payload where
  "bad_quantity =
     \<lparr>produtos = [''https://shop/p1:1'', ''https://shop/p2:abc'', ''https://shop/p3:2''],
      checkout = billing\<rparr>"

section \<open>Notions used in the statements\<close>

text \<open>A float the parser can return: the significand of a finite one is not negative.\<close>

definition well_formed :: "pyfloat \<Rightarrow> bool" where
  "well_formed x = (case x of Finite neg m p \<Rightarrow> 0 \<le> m | _ \<Rightarrow> True)"

text \<open>
  An optional minus sign, one or more digits, a point, two digits: read from the end,
  after the sign is dropped.
\<close>

definition two_decimals :: "string \<Rightarrow> bool" where
  "two_decimals s =
     (case rev (case s of c # cs \<Rightarrow> if c = CHR ''-'' then cs else s | [] \<Rightarrow> s) of
        d2 # d1 # p # ds \<Rightarrow>
          is_digit d2 \<and> is_digit d1 \<and> p = CHR ''.'' \<and> ds \<noteq> [] \<and> list_all is_digit ds
      | _ \<Rightarrow> False)"

text \<open>
  The calls made between the start of the \<open>try\<close> block and the scan for the error
  banner, the scan included: no payment call, no click on the order button, no call
  that opens or closes the session, and only \<open>Sao Paulo\<close> typed into the search field.
\<close>

fun shopping :: "action \<Rightarrow> bool" where
  "shopping (Goto u) = True"
| "shopping (Fill sel v) = (sel = search_field \<longrightarrow> v = sao_paulo)"
| "shopping (Click sel) = (sel \<noteq> place_order)"
| "shopping (Press k) = True"
| "shopping ExpectResponse = True"
| "shopping AwaitResponse = True"
| "shopping Content = True"
| "shopping (Delay lo hi) = True"
| "shopping a = False"

text \<open>The calls of the payment step: the check, and the selection when it is needed.\<close>

definition payment_events :: "trace \<Rightarrow> bool" where
  "payment_events pay \<longleftrightarrow>
     pay = [(IsChecked pix, Raised)] \<or> pay = [(IsChecked pix, RetBool True)] \<or>
     pay = [(IsChecked pix, RetBool False), (Check pix, Returned)] \<or>
     pay = [(IsChecked pix, RetBool False), (Check pix, Raised)]"

text \<open>The calls of the submission step, with the outcome of the \<open>try\<close> body they give.\<close>

definition submit_events :: "exn + Result \<Rightarrow> trace \<Rightarrow> bool" where
  "submit_events r sub \<longleftrightarrow>
     (r = Inl (HTTPException 500 submit_detail) \<and> sub = [(Click place_order, Raised)]) \<or>
     (\<exists>its u. r = Inr \<lparr>items = its, checkout_state = ''pedido_enviado'',
                        redirect_url = Some u\<rparr> \<and>
        sub = [(Click place_order, Returned), (Delay 6000 20000, Returned),
               (ReadUrl, RetStr u)])"

text \<open>
  What follows the scan for the banner: nothing when the body has already failed,
  otherwise the payment step and the submission step.
\<close>

definition body_events :: "exn + Result \<Rightarrow> trace \<Rightarrow> trace \<Rightarrow> bool" where
  "body_events r pay sub \<longleftrightarrow>
     (isl r \<and> pay = [] \<and> sub = []) \<or> (payment_events pay \<and> submit_events r sub)"

text \<open>
  The calls of the \<open>finally\<close> block after its delay, with the outcome \<open>r\<close> of the body
  and the outcome \<open>r'\<close> of the block.
\<close>

definition close_events :: "exn + Result \<Rightarrow> exn + Result \<Rightarrow> trace \<Rightarrow> bool" where
  "close_events r r' fin \<longleftrightarrow>
     (fin = [(CloseContext, Raised)] \<and> r' = Inl (PlaywrightError CloseContext)) \<or>
     (fin = [(CloseContext, Returned), (CloseBrowser, Raised)] \<and>
        r' = Inl (PlaywrightError CloseBrowser)) \<or>
     (fin = [(CloseContext, Returned), (CloseBrowser, Returned)] \<and> r' = r)"

text \<open>
  The three shapes of the trace of a run, with its outcome \<open>r\<close>: Playwright did not
  start; the session was not acquired; or the \<open>try\<close> block was entered, and then the
  trace is the acquisition, the calls up to the banner scan, the payment and
  submission calls, the delay and the calls of the \<open>finally\<close> block, and the stop.
\<close>

definition run_shape :: "config \<Rightarrow> exn + Result \<Rightarrow> trace \<Rightarrow> bool" where
  "run_shape cfg r tr \<longleftrightarrow>
     (isl r \<and> tr = [(PlaywrightStart, Raised)]) \<or>
     (\<exists>acq oc. isl r \<and> tr = (PlaywrightStart, Returned) # acq @ [(PlaywrightStop, oc)] \<and>
        (NewPage, Returned) \<notin> set acq \<and>
        (\<forall>ev\<in>set acq. fst ev = Launch \<or> fst ev = NewContext \<or> fst ev = NewPage)) \<or>
     (\<exists>sh pay sub fin oc rb rf.
        tr = (PlaywrightStart, Returned) # map (\<lambda>a. (a, Returned)) (acquire cfg) @ sh @ pay
               @ sub @ (Delay 10000 10000, Returned) # fin @ [(PlaywrightStop, oc)] \<and>
        (\<forall>ev\<in>set sh. shopping (fst ev)) \<and> body_events rb pay sub \<and>
        close_events rb rf fin \<and> (oc = Raised \<and> isl r \<or> oc = Returned \<and> r = rf))"

text \<open>How many times a call was made in a trace.\<close>

definition count_calls :: "action \<Rightarrow> trace \<Rightarrow> nat" where
  "count_calls a tr = length (filter (\<lambda>ev. fst ev = a) tr)"

text \<open>
  Where the run stands when it reaches the scan for the error banner: the items
  recorded and the trace so far. \<open>None\<close> when the run ended before.
\<close>

definition at_banner_scan ::
    "config \<Rightarrow> browser \<Rightarrow> Payload \<Rightarrow> (ItemOutcome list \<times> trace) option" where
  "at_banner_scan cfg b data =
     (case call b [] PlaywrightStart of
        (Some e, tr) \<Rightarrow> None
      | (None, tr) \<Rightarrow>
          (case steps b tr (acquire cfg) of
             (Some e, tr1) \<Rightarrow> None
           | (None, tr1) \<Rightarrow>
               (case to_checkout_form cfg b data tr1 of
                  (Inl e, tr2) \<Rightarrow> None
                | (Inr its, tr2) \<Rightarrow> Some (its, tr2))))"

text \<open>
  The product pages a trace visits, in order, each with whether the navigation
  returned; and the lines that split at a colon, as pairs of address and raw quantity.
\<close>

definition gotos :: "trace \<Rightarrow> (string \<times> bool) list" where
  "gotos tr =
     List.map_filter (\<lambda>ev. case ev of (Goto u, oc) \<Rightarrow> Some (u, oc = Returned) | _ \<Rightarrow> None) tr"

definition parsed :: "string list \<Rightarrow> (string \<times> string) list" where
  "parsed ls = List.map_filter rsplit_colon ls"

text \<open>An item that records the line: its address and its normalised quantity.\<close>

definition records :: "string \<times> string \<Rightarrow> ItemOutcome \<Rightarrow> bool" where
  "records p it \<longleftrightarrow> url it = fst p \<and> normalize_qty (snd p) = Inr (qty it)"

text \<open>An event of the payment step: the check or the selection of the option.\<close>

definition payment_call :: "event \<Rightarrow> bool" where
  "payment_call ev \<longleftrightarrow> fst ev = IsChecked pix \<or> fst ev = Check pix"

section \<open>The quantity format\<close>

lemma is_digit_digit_char: "0 \<le> d \<Longrightarrow> d \<le> 9 \<Longrightarrow> is_digit (digit_char d)"
  by (simp add: is_digit_def digit_char_def code_def)

lemma dec_digits_digits:
  "0 \<le> n \<Longrightarrow> dec_digits n \<noteq> [] \<and> list_all is_digit (dec_digits n)"
proof (induction n rule: dec_digits.induct)
  case (1 n)
  show ?case
  proof (cases "n < 10")
    case True
    with "1.prems" show ?thesis
      by (simp add: dec_digits.simps [of n] is_digit_digit_char)
  next
    case False
    with "1.prems" have "0 \<le> n div 10" by simp
    with "1.IH" False have "list_all is_digit (dec_digits (n div 10))" by simp
    moreover have "is_digit (digit_char (n mod 10))"
      by (rule is_digit_digit_char) simp_all
    ultimately show ?thesis using False
      by (simp add: dec_digits.simps [of n])
  qed
qed

lemma round_half_even_nonneg: "0 \<le> n \<Longrightarrow> 0 < d \<Longrightarrow> 0 \<le> round_half_even n d"
  by (simp add: round_half_even_def Let_def pos_imp_zdiv_nonneg_iff)

lemma hundredths_nonneg: "0 \<le> m \<Longrightarrow> 0 \<le> hundredths m p"
  by (simp add: hundredths_def round_half_even_nonneg)

lemma two_decimals_digits:
  assumes "ds \<noteq> []" "list_all is_digit ds" "is_digit d1" "is_digit d2"
  shows "two_decimals ((if neg then ''-'' else []) @ ds @ ''.'' @ [d1, d2])"
proof -
  from assms(1) obtain c cs where ds: "ds = c # cs" by (cases ds) auto
  with assms(2) have "is_digit c" by simp
  then have c: "c \<noteq> CHR ''-''" by (auto simp: is_digit_def code_def)
  have "rev (ds @ ''.'' @ [d1, d2]) = d2 # d1 # CHR ''.'' # rev ds" by simp
  with assms c show ?thesis
    by (cases neg) (simp_all add: two_decimals_def ds)
qed

lemma format_2f_finite: "0 \<le> m \<Longrightarrow> two_decimals (format_2f (Finite neg m p))"
proof -
  assume m: "0 \<le> m"
  define n where "n = hundredths m p"
  have n: "0 \<le> n" using m by (simp add: n_def hundredths_nonneg)
  then have "0 \<le> n div 100" by simp
  then have ds: "dec_digits (n div 100) \<noteq> []" "list_all is_digit (dec_digits (n div 100))"
    using dec_digits_digits by blast+
  have d1: "is_digit (digit_char (n div 10 mod 10))"
    by (rule is_digit_digit_char) simp_all
  have d2: "is_digit (digit_char (n mod 10))"
    by (rule is_digit_digit_char) simp_all
  have "format_2f (Finite neg m p) =
      (if neg then ''-'' else []) @ dec_digits (n div 100) @ ''.''
        @ [digit_char (n div 10 mod 10), digit_char (n mod 10)]"
    by (simp add: n_def Let_def)
  with two_decimals_digits [OF ds d1 d2, of neg] show ?thesis by simp
qed

lemma format_2f_shape:
  "well_formed x \<Longrightarrow>
     format_2f x = ''nan'' \<or> format_2f x = ''inf'' \<or> format_2f x = ''-inf'' \<or>
     two_decimals (format_2f x)"
  by (cases x) (simp_all add: well_formed_def format_2f_finite del: format_2f.simps(1))

lemma foldl_digits_nonneg:
  "0 \<le> a \<Longrightarrow> list_all is_digit ds \<Longrightarrow>
     0 \<le> foldl (\<lambda>a c. 10 * a + (code c - 48)) a ds"
  by (induction ds arbitrary: a) (simp_all add: is_digit_def)

lemma int_of_digits_nonneg: "list_all is_digit ds \<Longrightarrow> 0 \<le> int_of_digits ds"
  by (simp add: int_of_digits_def foldl_digits_nonneg)

lemma takeWhile_digits: "list_all is_digit (takeWhile is_digit s)"
  by (induction s) simp_all

lemma parse_decimal_nonneg:
  assumes "parse_decimal s = Some ((neg, d, e), r)"
  shows "0 \<le> d"
proof -
  have "0 \<le> int_of_digits (takeWhile is_digit xs @ takeWhile is_digit ys)" for xs ys
    by (rule int_of_digits_nonneg) (simp add: takeWhile_digits)
  from this [of _ "[]"] this
  show ?thesis
    using assms
    by (auto simp: parse_decimal_def Let_def split: prod.splits list.splits if_splits)
qed

lemma round_to_double_wf: "0 \<le> num \<Longrightarrow> 0 < den \<Longrightarrow> well_formed (round_to_double neg num den)"
  by (simp add: round_to_double_def well_formed_def Let_def round_half_even_nonneg)

lemma decimal_to_double_wf: "0 \<le> d \<Longrightarrow> well_formed (decimal_to_double (neg, d, e))"
  by (simp add: decimal_to_double_def round_to_double_wf)

lemma parse_inf_or_nan_wf: "parse_inf_or_nan s = Some (x, r) \<Longrightarrow> well_formed x"
  by (auto simp: parse_inf_or_nan_def well_formed_def Let_def split: prod.splits if_splits)

lemma float_inner_wf: "float_inner s = Some x \<Longrightarrow> well_formed x"
  by (auto simp: float_inner_def Let_def decimal_to_double_wf
      split: option.splits prod.splits if_splits
      dest: parse_decimal_nonneg parse_inf_or_nan_wf)

lemma py_float_wf: "py_float s = Some x \<Longrightarrow> well_formed x"
  by (auto simp: py_float_def Let_def split: option.splits if_splits dest: float_inner_wf)

section \<open>What a phase adds to the trace\<close>

lemma call_cases:
  "call b tr a = (None, tr @ [(a, Returned)]) \<or>
   call b tr a = (Some (PlaywrightError a), tr @ [(a, Raised)])"
  by (simp add: call_def)

lemma steps_None: "steps b tr as = (None, tr') \<Longrightarrow> tr' = tr @ map (\<lambda>a. (a, Returned)) as"
proof (induction as arbitrary: tr)
  case Nil
  then show ?case by simp
next
  case (Cons a as)
  from call_cases [of b tr a] Cons.prems
  have "steps b (tr @ [(a, Returned)]) as = (None, tr')"
    by auto
  from Cons.IH [OF this] show ?case by simp
qed

lemma steps_Some:
  "steps b tr as = (Some e, tr') \<Longrightarrow>
     \<exists>pre a post. as = pre @ a # post \<and> e = PlaywrightError a \<and>
       tr' = tr @ map (\<lambda>a. (a, Returned)) pre @ [(a, Raised)]"
proof (induction as arbitrary: tr)
  case Nil
  then show ?case by simp
next
  case (Cons a as)
  from call_cases [of b tr a] show ?case
  proof
    assume ok: "call b tr a = (None, tr @ [(a, Returned)])"
    with Cons.prems have "steps b (tr @ [(a, Returned)]) as = (Some e, tr')"
      by simp
    from Cons.IH [OF this] obtain pre x post where
      "as = pre @ x # post" "e = PlaywrightError x"
      "tr' = (tr @ [(a, Returned)]) @ map (\<lambda>a. (a, Returned)) pre @ [(x, Raised)]"
      by blast
    then have "a # as = (a # pre) @ x # post \<and> e = PlaywrightError x \<and>
        tr' = tr @ map (\<lambda>a. (a, Returned)) (a # pre) @ [(x, Raised)]"
      by simp
    then show ?thesis by blast
  next
    assume bad: "call b tr a = (Some (PlaywrightError a), tr @ [(a, Raised)])"
    with Cons.prems have "e = PlaywrightError a" "tr' = tr @ [(a, Raised)]"
      by simp_all
    then have "a # as = [] @ a # as \<and> e = PlaywrightError a \<and>
        tr' = tr @ map (\<lambda>a. (a, Returned)) [] @ [(a, Raised)]"
      by simp
    then show ?thesis by blast
  qed
qed

lemma steps_extends:
  assumes "steps b tr as = (r, tr')" and "\<forall>a\<in>set as. P a"
  shows "\<exists>evs. tr' = tr @ evs \<and> (\<forall>ev\<in>set evs. P (fst ev))"
proof (cases r)
  case None
  with assms(1) have "tr' = tr @ map (\<lambda>a. (a, Returned)) as"
    by (simp add: steps_None)
  moreover have "\<forall>ev\<in>set (map (\<lambda>a. (a, Returned)) as). P (fst ev)"
    using assms(2) by simp
  ultimately show ?thesis by blast
next
  case (Some e)
  with assms(1) obtain pre a post where
    "as = pre @ a # post" "tr' = tr @ map (\<lambda>a. (a, Returned)) pre @ [(a, Raised)]"
    using steps_Some by blast
  moreover from this assms(2)
  have "\<forall>ev\<in>set (map (\<lambda>a. (a, Returned)) pre @ [(a, Raised)]). P (fst ev)"
    by auto
  ultimately show ?thesis by blast
qed

lemma process_line_shopping:
  assumes "process_line b tr its linha = (r, tr')"
  shows "\<exists>evs. tr' = tr @ evs \<and> (\<forall>ev\<in>set evs. shopping (fst ev))"
proof (cases "rsplit_colon linha")
  case None
  with assms show ?thesis by (simp add: process_line_def)
next
  case (Some p)
  obtain u raw where p: "p = (u, raw)" by (cases p)
  show ?thesis
  proof (cases "normalize_qty raw")
    case (Inl e)
    with assms Some p show ?thesis by (simp add: process_line_def)
  next
    case (Inr q)
    from call_cases [of b tr "Goto u"] show ?thesis
    proof
      assume bad: "call b tr (Goto u) = (Some (PlaywrightError (Goto u)), tr @ [(Goto u, Raised)])"
      with assms Some p Inr have "tr' = tr @ [(Goto u, Raised)]"
        by (simp add: process_line_def)
      then show ?thesis by simp
    next
      assume ok: "call b tr (Goto u) = (None, tr @ [(Goto u, Returned)])"
      obtain r2 tr2 where st: "steps b (tr @ [(Goto u, Returned)]) (add_to_cart q) = (r2, tr2)"
        by (cases "steps b (tr @ [(Goto u, Returned)]) (add_to_cart q)")
      have "\<forall>a\<in>set (add_to_cart q). shopping a"
        by (simp add: add_to_cart_def add_to_cart_button_def place_order_def search_field_def)
      from steps_extends [OF st this] obtain evs where
        evs: "tr2 = (tr @ [(Goto u, Returned)]) @ evs" "\<forall>ev\<in>set evs. shopping (fst ev)"
        by blast
      have "\<exists>more. tr' = tr2 @ more \<and> (\<forall>ev\<in>set more. shopping (fst ev))"
        using assms Some p Inr ok st
        by (auto simp: process_line_def human_delay_def page_content_def split: option.splits if_splits)
      then obtain more where "tr' = tr2 @ more" "\<forall>ev\<in>set more. shopping (fst ev)"
        by blast
      with evs have "tr' = tr @ ((Goto u, Returned) # evs @ more) \<and>
          (\<forall>ev\<in>set ((Goto u, Returned) # evs @ more). shopping (fst ev))"
        by auto
      then show ?thesis by blast
    qed
  qed
qed

lemma cart_loop_shopping:
  "cart_loop b tr its ls = (r, tr') \<Longrightarrow>
     \<exists>evs. tr' = tr @ evs \<and> (\<forall>ev\<in>set evs. shopping (fst ev))"
proof (induction ls arbitrary: tr its)
  case Nil
  then show ?case by simp
next
  case (Cons l ls)
  obtain r1 tr1 where pl: "process_line b tr its l = (r1, tr1)"
    by (cases "process_line b tr its l")
  from process_line_shopping [OF pl] obtain evs where
    evs: "tr1 = tr @ evs" "\<forall>ev\<in>set evs. shopping (fst ev)" by blast
  show ?case
  proof (cases r1)
    case (Inl e)
    with Cons.prems pl have "tr' = tr1" by simp
    with evs show ?thesis by blast
  next
    case (Inr its1)
    with Cons.prems pl have "cart_loop b tr1 its1 ls = (r, tr')" by simp
    from Cons.IH [OF this] obtain more where
      "tr' = tr1 @ more" "\<forall>ev\<in>set more. shopping (fst ev)" by blast
    with evs have "tr' = tr @ (evs @ more) \<and> (\<forall>ev\<in>set (evs @ more). shopping (fst ev))"
      by auto
    then show ?thesis by blast
  qed
qed

lemma fill_fields_shopping:
  "\<exists>evs. fill_fields b tr fs = tr @ evs \<and> (\<forall>ev\<in>set evs. shopping (fst ev))"
proof (induction fs arbitrary: tr)
  case Nil
  then show ?case by simp
next
  case (Cons f fs)
  obtain field v where f: "f = (field, v)" by (cases f)
  define tr1 where "tr1 = human_delay (snd (call b tr (Fill (''#'' @ field) v))) 200 600"
  have "\<exists>oc. tr1 = tr @ [(Fill (''#'' @ field) v, oc), (Delay 200 600, Returned)]"
    using call_cases [of b tr "Fill (''#'' @ field) v"]
    by (auto simp: tr1_def human_delay_def)
  then obtain oc where tr1: "tr1 = tr @ [(Fill (''#'' @ field) v, oc), (Delay 200 600, Returned)]"
    by blast
  from Cons.IH [of tr1] obtain evs where
    evs: "fill_fields b tr1 fs = tr1 @ evs" "\<forall>ev\<in>set evs. shopping (fst ev)" by blast
  have "fill_fields b tr (f # fs) = fill_fields b tr1 fs"
    by (simp add: f tr1_def)
  with evs tr1 have "fill_fields b tr (f # fs) =
      tr @ ([(Fill (''#'' @ field) v, oc), (Delay 200 600, Returned)] @ evs) \<and>
      (\<forall>ev\<in>set ([(Fill (''#'' @ field) v, oc), (Delay 200 600, Returned)] @ evs). shopping (fst ev))"
    by (auto simp: search_field_def)
  then show ?case by blast
qed

lemma select_region_shopping:
  "\<exists>evs. select_region b tr = tr @ evs \<and> (\<forall>ev\<in>set evs. shopping (fst ev))"
proof -
  obtain r tr' where st: "steps b tr region_actions = (r, tr')"
    by (cases "steps b tr region_actions")
  have "\<forall>a\<in>set region_actions. shopping a"
    by (simp add: region_actions_def state_container_def place_order_def)
  from steps_extends [OF st this] st show ?thesis
    by (simp add: select_region_def)
qed

lemma to_checkout_form_shopping:
  assumes "to_checkout_form cfg b data tr = (r, tr')"
  shows "\<exists>evs. tr' = tr @ evs \<and> (\<forall>ev\<in>set evs. shopping (fst ev))"
proof -
  obtain r1 tr1 where cl: "cart_loop b tr [] (produtos data) = (r1, tr1)"
    by (cases "cart_loop b tr [] (produtos data)")
  from cart_loop_shopping [OF cl] obtain evs where
    evs: "tr1 = tr @ evs" "\<forall>ev\<in>set evs. shopping (fst ev)" by blast
  show ?thesis
  proof (cases r1)
    case (Inl e)
    with assms cl have "tr' = tr1" by (simp add: to_checkout_form_def)
    with evs show ?thesis by blast
  next
    case (Inr its)
    let ?g = "Goto (CHECKOUT_URL cfg)"
    from call_cases [of b tr1 ?g] show ?thesis
    proof
      assume ok: "call b tr1 ?g = (None, tr1 @ [(?g, Returned)])"
      obtain e1 where e1: "fill_fields b (tr1 @ [(?g, Returned)]) (mapping (checkout data))
          = (tr1 @ [(?g, Returned)]) @ e1" "\<forall>ev\<in>set e1. shopping (fst ev)"
        using fill_fields_shopping by blast
      obtain e2 where e2: "select_region b ((tr1 @ [(?g, Returned)]) @ e1)
          = ((tr1 @ [(?g, Returned)]) @ e1) @ e2" "\<forall>ev\<in>set e2. shopping (fst ev)"
        using select_region_shopping by blast
      from assms cl Inr ok e1(1) e2(1) have "tr' = ((tr1 @ [(?g, Returned)]) @ e1) @ e2"
        by (simp add: to_checkout_form_def)
      with evs e1(2) e2(2) have "tr' = tr @ (evs @ (?g, Returned) # e1 @ e2) \<and>
          (\<forall>ev\<in>set (evs @ (?g, Returned) # e1 @ e2). shopping (fst ev))"
        by auto
      then show ?thesis by blast
    next
      assume bad: "call b tr1 ?g = (Some (PlaywrightError ?g), tr1 @ [(?g, Raised)])"
      with assms cl Inr have "tr' = tr1 @ [(?g, Raised)]"
        by (simp add: to_checkout_form_def)
      with evs have "tr' = tr @ (evs @ [(?g, Raised)]) \<and>
          (\<forall>ev\<in>set (evs @ [(?g, Raised)]). shopping (fst ev))"
        by auto
      then show ?thesis by blast
    qed
  qed
qed

lemma select_payment_events: "\<exists>pay. select_payment b tr = tr @ pay \<and> payment_events pay"
  by (simp add: select_payment_def is_checked_def call_def payment_events_def)

lemma submit_order_events:
  "submit_order b tr its = (r, tr') \<Longrightarrow> \<exists>sub. tr' = tr @ sub \<and> submit_events r sub"
  by (auto simp: submit_order_def call_def page_url_def human_delay_def submit_events_def
      split: if_splits)

lemma from_banner_scan_events:
  assumes "from_banner_scan b tr its = (r, tr')"
  shows "\<exists>oc pay sub. tr' = tr @ (Content, oc) # pay @ sub \<and> body_events r pay sub"
proof (cases "raises b tr Content")
  case True
  with assms have "tr' = tr @ (Content, Raised) # [] @ [] \<and> body_events r [] []"
    by (auto simp: from_banner_scan_def page_content_def body_events_def)
  then show ?thesis by blast
next
  case False
  show ?thesis
  proof (cases "contains error_banner (html b tr)")
    case True
    with assms \<open>\<not> raises b tr Content\<close>
    have "tr' = tr @ (Content, RetStr (html b tr)) # [] @ [] \<and> body_events r [] []"
      by (auto simp: from_banner_scan_def page_content_def body_events_def)
    then show ?thesis by blast
  next
    case no_banner: False
    let ?tr1 = "tr @ [(Content, RetStr (html b tr))]"
    obtain pay where pay: "select_payment b ?tr1 = ?tr1 @ pay" "payment_events pay"
      using select_payment_events by blast
    from assms False no_banner pay(1) have "submit_order b (?tr1 @ pay) its = (r, tr')"
      by (simp add: from_banner_scan_def page_content_def)
    from submit_order_events [OF this] obtain sub where
      "tr' = (?tr1 @ pay) @ sub" "submit_events r sub" by blast
    with pay(2) have "tr' = tr @ (Content, RetStr (html b tr)) # pay @ sub \<and>
        body_events r pay sub"
      by (simp add: body_events_def)
    then show ?thesis by blast
  qed
qed

lemma try_body_events:
  assumes "try_body cfg b data tr = (r, tr')"
  shows "\<exists>sh pay sub. tr' = tr @ sh @ pay @ sub \<and> (\<forall>ev\<in>set sh. shopping (fst ev)) \<and>
           body_events r pay sub"
proof -
  obtain r1 tr1 where f: "to_checkout_form cfg b data tr = (r1, tr1)"
    by (cases "to_checkout_form cfg b data tr")
  from to_checkout_form_shopping [OF f] obtain sh where
    sh: "tr1 = tr @ sh" "\<forall>ev\<in>set sh. shopping (fst ev)" by blast
  show ?thesis
  proof (cases r1)
    case (Inl e)
    with assms f have "r = Inl e" "tr' = tr1" by (simp_all add: try_body_def)
    with sh have "tr' = tr @ sh @ [] @ [] \<and> (\<forall>ev\<in>set sh. shopping (fst ev)) \<and>
        body_events r [] []"
      by (simp add: body_events_def)
    then show ?thesis by blast
  next
    case (Inr its)
    with assms f have "from_banner_scan b tr1 its = (r, tr')" by (simp add: try_body_def)
    from from_banner_scan_events [OF this] obtain oc pay sub where
      "tr' = tr1 @ (Content, oc) # pay @ sub" "body_events r pay sub" by blast
    with sh have "tr' = tr @ (sh @ [(Content, oc)]) @ pay @ sub \<and>
        (\<forall>ev\<in>set (sh @ [(Content, oc)]). shopping (fst ev)) \<and> body_events r pay sub"
      by simp
    then show ?thesis by blast
  qed
qed

lemma finally_close_events:
  "finally_close b (r, tr) = (r', tr') \<Longrightarrow>
     \<exists>fin. tr' = tr @ (Delay 10000 10000, Returned) # fin \<and> close_events r r' fin"
  by (auto simp: finally_close_def human_delay_def call_def close_events_def split: if_splits)

text \<open>The session was not acquired: some call before \<open>new_page\<close> returned raised.\<close>

lemma acquire_events:
  "steps b tr (acquire cfg) = (ro, tr') \<Longrightarrow>
     (ro = None \<and> tr' = tr @ map (\<lambda>a. (a, Returned)) (acquire cfg)) \<or>
     (\<exists>e acq. ro = Some e \<and> tr' = tr @ acq \<and> (NewPage, Returned) \<notin> set acq \<and>
        (\<forall>ev\<in>set acq. fst ev = Launch \<or> fst ev = NewContext \<or> fst ev = NewPage))"
  by (auto simp: acquire_def call_def split: if_splits)

lemma in_playwright_events:
  assumes "in_playwright cfg b data tr = (r, tr')"
  shows "(\<exists>acq. isl r \<and> tr' = tr @ acq \<and> (NewPage, Returned) \<notin> set acq \<and>
            (\<forall>ev\<in>set acq. fst ev = Launch \<or> fst ev = NewContext \<or> fst ev = NewPage)) \<or>
         (\<exists>sh pay sub fin rb.
            tr' = tr @ map (\<lambda>a. (a, Returned)) (acquire cfg) @ sh @ pay @ sub
                    @ (Delay 10000 10000, Returned) # fin \<and>
            (\<forall>ev\<in>set sh. shopping (fst ev)) \<and> body_events rb pay sub \<and>
            close_events rb r fin)"
proof -
  obtain ro tr1 where a: "steps b tr (acquire cfg) = (ro, tr1)"
    by (cases "steps b tr (acquire cfg)")
  from acquire_events [OF a] show ?thesis
  proof
    assume ok: "ro = None \<and> tr1 = tr @ map (\<lambda>a. (a, Returned)) (acquire cfg)"
    obtain rb tr2 where tb: "try_body cfg b data tr1 = (rb, tr2)"
      by (cases "try_body cfg b data tr1")
    from try_body_events [OF tb] obtain sh pay sub where
      body: "tr2 = tr1 @ sh @ pay @ sub" "\<forall>ev\<in>set sh. shopping (fst ev)"
        "body_events rb pay sub" by blast
    from assms a ok tb have "finally_close b (rb, tr2) = (r, tr')"
      by (simp add: in_playwright_def)
    from finally_close_events [OF this] obtain fin where
      "tr' = tr2 @ (Delay 10000 10000, Returned) # fin" "close_events rb r fin" by blast
    with ok body have "tr' = tr @ map (\<lambda>a. (a, Returned)) (acquire cfg) @ sh @ pay @ sub
          @ (Delay 10000 10000, Returned) # fin \<and>
        (\<forall>ev\<in>set sh. shopping (fst ev)) \<and> body_events rb pay sub \<and> close_events rb r fin"
      by simp
    then show ?thesis by blast
  next
    assume "\<exists>e acq. ro = Some e \<and> tr1 = tr @ acq \<and> (NewPage, Returned) \<notin> set acq \<and>
        (\<forall>ev\<in>set acq. fst ev = Launch \<or> fst ev = NewContext \<or> fst ev = NewPage)"
    then obtain e acq where bad: "ro = Some e" "tr1 = tr @ acq" "(NewPage, Returned) \<notin> set acq"
      "\<forall>ev\<in>set acq. fst ev = Launch \<or> fst ev = NewContext \<or> fst ev = NewPage" by blast
    from assms a bad(1) have "r = Inl e" "tr' = tr1" by (simp_all add: in_playwright_def)
    with bad show ?thesis by auto
  qed
qed

lemma process_request_shape:
  assumes "process_request cfg b data = (r, tr)"
  shows "run_shape cfg r tr"
proof (cases "raises b [] PlaywrightStart")
  case True
  with assms show ?thesis by (auto simp: process_request_def call_def run_shape_def)
next
  case False
  let ?tr0 = "[(PlaywrightStart, Returned)]"
  obtain r1 tr1 where ip: "in_playwright cfg b data ?tr0 = (r1, tr1)"
    by (cases "in_playwright cfg b data ?tr0")
  from assms False ip have stop:
    "(r = Inl (PlaywrightError PlaywrightStop) \<and> tr = tr1 @ [(PlaywrightStop, Raised)]) \<or>
     (r = r1 \<and> tr = tr1 @ [(PlaywrightStop, Returned)])"
    by (auto simp: process_request_def call_def split: if_splits)
  then obtain oc where oc: "tr = tr1 @ [(PlaywrightStop, oc)]"
    "oc = Raised \<and> isl r \<or> oc = Returned \<and> r = r1" by auto
  from in_playwright_events [OF ip] show ?thesis
  proof
    assume "\<exists>acq. isl r1 \<and> tr1 = ?tr0 @ acq \<and> (NewPage, Returned) \<notin> set acq \<and>
        (\<forall>ev\<in>set acq. fst ev = Launch \<or> fst ev = NewContext \<or> fst ev = NewPage)"
    then obtain acq where acq: "isl r1" "tr1 = ?tr0 @ acq" "(NewPage, Returned) \<notin> set acq"
      "\<forall>ev\<in>set acq. fst ev = Launch \<or> fst ev = NewContext \<or> fst ev = NewPage" by blast
    from oc acq(1) have "isl r" by auto
    with oc(1) acq have "isl r \<and> tr = (PlaywrightStart, Returned) # acq @ [(PlaywrightStop, oc)] \<and>
        (NewPage, Returned) \<notin> set acq \<and>
        (\<forall>ev\<in>set acq. fst ev = Launch \<or> fst ev = NewContext \<or> fst ev = NewPage)"
      by simp
    then show ?thesis unfolding run_shape_def by blast
  next
    assume "\<exists>sh pay sub fin rb.
        tr1 = ?tr0 @ map (\<lambda>a. (a, Returned)) (acquire cfg) @ sh @ pay @ sub
                @ (Delay 10000 10000, Returned) # fin \<and>
        (\<forall>ev\<in>set sh. shopping (fst ev)) \<and> body_events rb pay sub \<and> close_events rb r1 fin"
    then obtain sh pay sub fin rb where
      "tr1 = ?tr0 @ map (\<lambda>a. (a, Returned)) (acquire cfg) @ sh @ pay @ sub
                @ (Delay 10000 10000, Returned) # fin"
      "\<forall>ev\<in>set sh. shopping (fst ev)" "body_events rb pay sub" "close_events rb r1 fin"
      by blast
    with oc have "tr = (PlaywrightStart, Returned) # map (\<lambda>a. (a, Returned)) (acquire cfg) @ sh
          @ pay @ sub @ (Delay 10000 10000, Returned) # fin @ [(PlaywrightStop, oc)] \<and>
        (\<forall>ev\<in>set sh. shopping (fst ev)) \<and> body_events rb pay sub \<and>
        close_events rb r1 fin \<and> (oc = Raised \<and> isl r \<or> oc = Returned \<and> r = r1)"
      by simp
    then show ?thesis unfolding run_shape_def by blast
  qed
qed

lemma payment_events_calls:
  "payment_events pay \<Longrightarrow> ev \<in> set pay \<Longrightarrow> fst ev = IsChecked pix \<or> fst ev = Check pix"
  by (auto simp: payment_events_def)

lemma submit_events_calls:
  "submit_events r sub \<Longrightarrow> ev \<in> set sub \<Longrightarrow>
     fst ev = Click place_order \<or> fst ev = Delay 6000 20000 \<or> fst ev = ReadUrl"
  by (auto simp: submit_events_def)

lemma body_events_calls:
  "body_events r pay sub \<Longrightarrow> ev \<in> set pay \<union> set sub \<Longrightarrow>
     fst ev \<in> {IsChecked pix, Check pix, Click place_order, Delay 6000 20000, ReadUrl}"
  using payment_events_calls [of pay ev] submit_events_calls [of r sub ev]
  by (auto simp: body_events_def)

lemma close_events_calls:
  "close_events r r' fin \<Longrightarrow> ev \<in> set fin \<Longrightarrow>
     fst ev = CloseContext \<or> fst ev = CloseBrowser"
  by (auto simp: close_events_def)

lemma run_shape_events:
  assumes "run_shape cfg r tr" and "ev \<in> set tr"
  shows "shopping (fst ev) \<or>
         fst ev \<in> {PlaywrightStart, Launch, NewContext, NewPage,
                    SetDefaultTimeout (ACTION_TIMEOUT_MS cfg), IsChecked pix, Check pix,
                    Click place_order, ReadUrl, CloseContext, CloseBrowser, PlaywrightStop}"
proof -
  consider
    (no_start) "tr = [(PlaywrightStart, Raised)]"
  | (no_session) acq oc where "tr = (PlaywrightStart, Returned) # acq @ [(PlaywrightStop, oc)]"
      "\<forall>ev\<in>set acq. fst ev = Launch \<or> fst ev = NewContext \<or> fst ev = NewPage"
  | (session) sh pay sub fin oc rb rf where
      "tr = (PlaywrightStart, Returned) # map (\<lambda>a. (a, Returned)) (acquire cfg) @ sh @ pay
             @ sub @ (Delay 10000 10000, Returned) # fin @ [(PlaywrightStop, oc)]"
      "\<forall>ev\<in>set sh. shopping (fst ev)" "body_events rb pay sub" "close_events rb rf fin"
    using assms(1) unfolding run_shape_def by blast
  then show ?thesis
  proof cases
    case no_start
    with assms(2) show ?thesis by simp
  next
    case no_session
    with assms(2) show ?thesis by auto
  next
    case session
    from assms(2) session(1) consider
      "fst ev = PlaywrightStart" | "fst ev \<in> set (acquire cfg)" | "ev \<in> set sh"
      | "ev \<in> set pay \<union> set sub" | "fst ev = Delay 10000 10000" | "ev \<in> set fin"
      | "fst ev = PlaywrightStop"
      by auto
    then show ?thesis
    proof cases
      case 2
      then show ?thesis by (auto simp: acquire_def)
    next
      case 3
      with session(2) show ?thesis by simp
    next
      case 4
      from body_events_calls [OF session(3) this] show ?thesis by auto
    next
      case 6
      from close_events_calls [OF session(4) this] show ?thesis by auto
    qed simp_all
  qed
qed

lemma not_shopping_place_order: "\<forall>ev\<in>set sh. shopping (fst ev) \<Longrightarrow> (Click place_order, oc) \<notin> set sh"
  by auto

lemma payment_events_no_click: "payment_events pay \<Longrightarrow> (Click sel, oc) \<notin> set pay"
  by (auto simp: payment_events_def)

lemma close_events_isl: "close_events rb rf fin \<Longrightarrow> isl rb \<Longrightarrow> isl rf"
  by (auto simp: close_events_def)

lemma count_calls_simps:
  "count_calls a [] = 0"
  "count_calls a (ev # tr) = (if fst ev = a then 1 else 0) + count_calls a tr"
  "count_calls a (tr @ tr') = count_calls a tr + count_calls a tr'"
  by (simp_all add: count_calls_def)

lemma count_calls_none: "\<forall>ev\<in>set tr. fst ev \<noteq> a \<Longrightarrow> count_calls a tr = 0"
  by (simp add: count_calls_def)

section \<open>Evaluating a run\<close>

text \<open>
  A run against a given browser is computed by unfolding the definitions below; the
  lines of the examples are split and their quantities normalised once and for all.
\<close>

lemmas run_defs = process_request_def in_playwright_def finally_close_def try_body_def
  from_banner_scan_def to_checkout_form_def submit_order_def select_payment_def
  select_region_def process_line_def call_def human_delay_def page_content_def
  is_checked_def page_url_def acquire_def add_to_cart_def region_actions_def mapping_def
  checkout_endpoint_def

lemmas selector_defs = add_to_cart_button_def state_container_def search_field_def pix_def
  place_order_def

lemmas example_defs = calm_def failing_def billing_def default_config_def one_product_def
  two_products_def bad_quantity_def stays_on_checkout_def shows_banner_def
  pix_preselected_def order_received_def error_banner_def

lemma rsplit_examples:
  "rsplit_colon ''https://shop/p1:0,05'' = Some (''https://shop/p1'', ''0,05'')"
  "rsplit_colon ''https://shop/p1:1'' = Some (''https://shop/p1'', ''1'')"
  "rsplit_colon ''https://shop/p2:2'' = Some (''https://shop/p2'', ''2'')"
  "rsplit_colon ''https://shop/p2:abc'' = Some (''https://shop/p2'', ''abc'')"
  by (simp_all add: rsplit_colon_def)

lemma normalize_examples:
  "normalize_qty ''0,05'' = Inr ''0.05''"
  "normalize_qty ''1'' = Inr ''1.00''"
  "normalize_qty ''2'' = Inr ''2.00''"
  "normalize_qty ''abc'' = Inl ValueError"
  by code_simp+

lemmas examples = rsplit_examples normalize_examples

lemma calm_one_product:
  "fst (process_request default_config calm one_product) =
     Inr \<lparr>items = [\<lparr>url = ''https://shop/p1'', qty = ''0.05'', added = True\<rparr>],
          checkout_state = ''pedido_enviado'', redirect_url = Some order_received\<rparr>"
  by (simp add: run_defs example_defs examples)

section \<open>The claims\<close>

subsection \<open>A quantity that is not a number\<close>

text \<open>
  Claim C1 says that a line whose quantity is not a number is recorded with
  \<open>added = false\<close> and that the run goes on. The code normalises the quantity outside
  every \<open>try\<close> of the loop body, so the \<open>ValueError\<close> ends the run: with three lines
  of which the second has the quantity \<open>abc\<close>, the run fails, the endpoint answers 500,
  and only the first product page was ever opened.
\<close>

theorem bad_quantity_aborts_run:
  "fst (process_request default_config calm bad_quantity) = Inl ValueError \<and>
   checkout_endpoint default_config calm bad_quantity = Http500 ValueError \<and>
   map fst (filter (\<lambda>ev. \<exists>u. fst ev = Goto u)
     (snd (process_request default_config calm bad_quantity))) = [Goto ''https://shop/p1'']"
  by (simp add: run_defs example_defs examples)

subsection \<open>One outcome for each product page that was opened\<close>

lemma gotos_Nil: "gotos [] = []"
  by (simp add: gotos_def map_filter_simps)

lemma gotos_Cons_Goto: "gotos ((Goto u, oc) # evs) = (u, oc = Returned) # gotos evs"
  by (simp add: gotos_def map_filter_simps)

lemma gotos_append: "gotos (xs @ ys) = gotos xs @ gotos ys"
  by (simp add: gotos_def map_filter_def)

lemma gotos_none: "\<forall>ev\<in>set evs. \<forall>u. fst ev \<noteq> Goto u \<Longrightarrow> gotos evs = []"
proof (induction evs)
  case Nil
  show ?case by (rule gotos_Nil)
next
  case (Cons ev evs)
  obtain a oc where ev: "ev = (a, oc)" by (cases ev)
  with Cons.prems have "\<forall>u. a \<noteq> Goto u" by simp
  then have "gotos (ev # evs) = gotos evs"
    by (cases a) (simp_all add: ev gotos_def map_filter_simps)
  with Cons show ?case by simp
qed

lemma parsed_Cons:
  "parsed (l # ls) = (case rsplit_colon l of None \<Rightarrow> parsed ls | Some p \<Rightarrow> p # parsed ls)"
  by (simp add: parsed_def map_filter_simps split: option.splits)

lemma process_line_outcome:
  assumes "process_line b tr its l = (Inr its', tr')"
  shows "(rsplit_colon l = None \<and> its' = its \<and> tr' = tr) \<or>
         (\<exists>p evs. rsplit_colon l = Some p \<and> tr' = tr @ evs \<and>
            gotos evs = [(fst p, False)] \<and> its' = its) \<or>
         (\<exists>p evs it. rsplit_colon l = Some p \<and> tr' = tr @ evs \<and>
            gotos evs = [(fst p, True)] \<and> its' = its @ [it] \<and> records p it)"
proof (cases "rsplit_colon l")
  case None
  with assms show ?thesis by (simp add: process_line_def)
next
  case (Some p)
  obtain u raw where p: "p = (u, raw)" by (cases p)
  from assms Some p obtain q where q: "normalize_qty raw = Inr q"
    by (cases "normalize_qty raw") (simp_all add: process_line_def)
  from call_cases [of b tr "Goto u"] show ?thesis
  proof
    assume bad: "call b tr (Goto u) = (Some (PlaywrightError (Goto u)), tr @ [(Goto u, Raised)])"
    with assms Some p q have "tr' = tr @ [(Goto u, Raised)]" "its' = its"
      by (simp_all add: process_line_def)
    moreover have "gotos [(Goto u, Raised)] = [(fst p, False)]"
      by (simp add: gotos_Cons_Goto gotos_Nil p)
    ultimately have "rsplit_colon l = Some p \<and> tr' = tr @ [(Goto u, Raised)] \<and>
        gotos [(Goto u, Raised)] = [(fst p, False)] \<and> its' = its"
      using Some by simp
    then show ?thesis by blast
  next
    assume ok: "call b tr (Goto u) = (None, tr @ [(Goto u, Returned)])"
    let ?tr1 = "tr @ [(Goto u, Returned)]"
    obtain r2 tr2 where st: "steps b ?tr1 (add_to_cart q) = (r2, tr2)"
      by (cases "steps b ?tr1 (add_to_cart q)")
    have "\<forall>a\<in>set (add_to_cart q). \<forall>u. a \<noteq> Goto u"
      by (simp add: add_to_cart_def)
    from steps_extends [OF st this] obtain evs where
      evs: "tr2 = ?tr1 @ evs" "\<forall>ev\<in>set evs. \<forall>u. fst ev \<noteq> Goto u"
      by blast
    from assms Some p q ok st
    have "\<exists>more a. tr' = tr2 @ more \<and> (\<forall>ev\<in>set more. \<forall>u. fst ev \<noteq> Goto u) \<and>
        its' = its @ [\<lparr>url = u, qty = q, added = a\<rparr>]"
      by (auto simp: process_line_def human_delay_def page_content_def
          split: option.splits if_splits)
    then obtain more a where more: "tr' = tr2 @ more" "\<forall>ev\<in>set more. \<forall>u. fst ev \<noteq> Goto u"
      "its' = its @ [\<lparr>url = u, qty = q, added = a\<rparr>]"
      by blast
    from evs(2) more(2) have "gotos (evs @ more) = []"
      by (intro gotos_none) auto
    then have g: "gotos ((Goto u, Returned) # evs @ more) = [(fst p, True)]"
      by (simp add: gotos_Cons_Goto p)
    have rec: "records p \<lparr>url = u, qty = q, added = a\<rparr>"
      by (simp add: records_def p q)
    from evs(1) more(1) have "tr' = tr @ ((Goto u, Returned) # evs @ more)"
      by simp
    with Some g more(3) rec show ?thesis by blast
  qed
qed

text \<open>
  A line whose navigation raises: the loop body makes that one call, appends no item
  and raises nothing, and the loop goes on with the lines that follow, whatever they
  are.
\<close>

lemma failed_navigation_continues:
  assumes "rsplit_colon l = Some (u, raw)" and "normalize_qty raw = Inr q"
    and "raises b tr (Goto u)"
  shows "process_line b tr its l = (Inr its, tr @ [(Goto u, Raised)]) \<and>
         cart_loop b tr its (l # rest) = cart_loop b (tr @ [(Goto u, Raised)]) its rest"
proof -
  from assms(3) have "call b tr (Goto u) = (Some (PlaywrightError (Goto u)), tr @ [(Goto u, Raised)])"
    by (simp add: call_def)
  with assms(1,2) have "process_line b tr its l = (Inr its, tr @ [(Goto u, Raised)])"
    by (simp add: process_line_def)
  then show ?thesis by simp
qed

lemma cart_loop_outcomes:
  assumes "cart_loop b tr its ls = (Inr its', tr')"
  shows "\<exists>evs oks new. tr' = tr @ evs \<and> its' = its @ new \<and>
           length oks = length (parsed ls) \<and>
           gotos evs = zip (map fst (parsed ls)) oks \<and>
           list_all2 records (map fst (filter snd (zip (parsed ls) oks))) new"
  using assms
proof (induction ls arbitrary: tr its)
  case Nil
  then have "tr' = tr @ [] \<and> its' = its @ [] \<and> length ([]::bool list) = length (parsed []) \<and>
      gotos [] = zip (map fst (parsed [])) [] \<and>
      list_all2 records (map fst (filter snd (zip (parsed []) []))) []"
    by (simp add: gotos_Nil parsed_def map_filter_simps)
  then show ?case by blast
next
  case (Cons l ls)
  from Cons.prems obtain its1 tr1 where
    line: "process_line b tr its l = (Inr its1, tr1)" and
    rest: "cart_loop b tr1 its1 ls = (Inr its', tr')"
    by (auto split: prod.splits sum.splits)
  from Cons.IH [OF rest] obtain evs oks new where ih:
    "tr' = tr1 @ evs" "its' = its1 @ new" "length oks = length (parsed ls)"
    "gotos evs = zip (map fst (parsed ls)) oks"
    "list_all2 records (map fst (filter snd (zip (parsed ls) oks))) new"
    by blast
  from process_line_outcome [OF line] show ?case
  proof (elim disjE exE conjE)
    assume "rsplit_colon l = None" "its1 = its" "tr1 = tr"
    with ih have "tr' = tr @ evs \<and> its' = its @ new \<and> length oks = length (parsed (l # ls)) \<and>
        gotos evs = zip (map fst (parsed (l # ls))) oks \<and>
        list_all2 records (map fst (filter snd (zip (parsed (l # ls)) oks))) new"
      by (simp add: parsed_Cons)
    then show ?thesis by blast
  next
    fix p ev1
    assume "rsplit_colon l = Some p" "tr1 = tr @ ev1" "gotos ev1 = [(fst p, False)]"
      "its1 = its"
    with ih have "tr' = tr @ (ev1 @ evs) \<and> its' = its @ new \<and>
        length (False # oks) = length (parsed (l # ls)) \<and>
        gotos (ev1 @ evs) = zip (map fst (parsed (l # ls))) (False # oks) \<and>
        list_all2 records (map fst (filter snd (zip (parsed (l # ls)) (False # oks)))) new"
      by (simp add: parsed_Cons gotos_append)
    then show ?thesis by blast
  next
    fix p ev1 it
    assume "rsplit_colon l = Some p" "tr1 = tr @ ev1" "gotos ev1 = [(fst p, True)]"
      "its1 = its @ [it]" "records p it"
    with ih have "tr' = tr @ (ev1 @ evs) \<and> its' = its @ (it # new) \<and>
        length (True # oks) = length (parsed (l # ls)) \<and>
        gotos (ev1 @ evs) = zip (map fst (parsed (l # ls))) (True # oks) \<and>
        list_all2 records (map fst (filter snd (zip (parsed (l # ls)) (True # oks)))) (it # new)"
      by (simp add: parsed_Cons gotos_append)
    then show ?thesis by blast
  qed
qed

text \<open>
  Claim C2, as amended. A line that splits at a colon, whose quantity normalises and
  whose navigation raises gets no item (not an item with \<open>added = false\<close>), raises
  nothing, and the loop goes on with the next line: the loop over that line and any
  lines after it is the loop over the lines after it, from the trace with the failed
  navigation and with the same items. And when the loop over the product lines ends
  without an exception, every line that splits at a colon was navigated to, in the
  order of the input, and the items appended are exactly, in that order, one for each
  of these lines whose navigation returned, carrying the address and the normalised
  quantity of its line.
\<close>

theorem one_outcome_per_navigated_line:
  "(rsplit_colon l = Some (u, raw) \<and> normalize_qty raw = Inr q \<and> raises b tr (Goto u) \<longrightarrow>
      process_line b tr its l = (Inr its, tr @ [(Goto u, Raised)]) \<and>
      cart_loop b tr its (l # rest) = cart_loop b (tr @ [(Goto u, Raised)]) its rest) \<and>
   (cart_loop b tr its ls = (Inr its', tr') \<longrightarrow>
      (\<exists>evs oks new. tr' = tr @ evs \<and> its' = its @ new \<and>
         length oks = length (parsed ls) \<and>
         gotos evs = zip (map fst (parsed ls)) oks \<and>
         list_all2 records (map fst (filter snd (zip (parsed ls) oks))) new))"
proof (intro conjI impI)
  assume "rsplit_colon l = Some (u, raw) \<and> normalize_qty raw = Inr q \<and> raises b tr (Goto u)"
  then have "rsplit_colon l = Some (u, raw)" "normalize_qty raw = Inr q" "raises b tr (Goto u)"
    by simp_all
  from failed_navigation_continues [OF this, of its rest]
  show "process_line b tr its l = (Inr its, tr @ [(Goto u, Raised)])"
    and "cart_loop b tr its (l # rest) = cart_loop b (tr @ [(Goto u, Raised)]) its rest"
    by simp_all
next
  assume "cart_loop b tr its ls = (Inr its', tr')"
  then show "\<exists>evs oks new. tr' = tr @ evs \<and> its' = its @ new \<and>
      length oks = length (parsed ls) \<and>
      gotos evs = zip (map fst (parsed ls)) oks \<and>
      list_all2 records (map fst (filter snd (zip (parsed ls) oks))) new"
    by (rule cart_loop_outcomes)
qed

text \<open>
  The theorem at two lines of which the first cannot be opened: the loop goes on
  with the second, and only the second gets an item.
\<close>

theorem one_outcome_per_navigated_line_witness:
  "rsplit_colon ''https://shop/p1:1'' = Some (''https://shop/p1'', ''1'') \<and>
   normalize_qty ''1'' = Inr ''1.00'' \<and>
   raises (failing {Goto ''https://shop/p1''}) [] (Goto ''https://shop/p1'') \<and>
   process_line (failing {Goto ''https://shop/p1''}) [] [] ''https://shop/p1:1'' =
     (Inr [], [(Goto ''https://shop/p1'', Raised)]) \<and>
   cart_loop (failing {Goto ''https://shop/p1''}) [] []
       (''https://shop/p1:1'' # [''https://shop/p2:2'']) =
     cart_loop (failing {Goto ''https://shop/p1''}) [(Goto ''https://shop/p1'', Raised)] []
       [''https://shop/p2:2''] \<and>
   fst (cart_loop (failing {Goto ''https://shop/p1''}) [] [] (produtos two_products)) =
     Inr [\<lparr>url = ''https://shop/p2'', qty = ''2.00'', added = True\<rparr>] \<and>
   (\<exists>evs oks new.
      snd (cart_loop (failing {Goto ''https://shop/p1''}) [] [] (produtos two_products)) =
        [] @ evs \<and>
      [\<lparr>url = ''https://shop/p2'', qty = ''2.00'', added = True\<rparr>] = [] @ new \<and>
      length oks = length (parsed (produtos two_products)) \<and>
      gotos evs = zip (map fst (parsed (produtos two_products))) oks \<and>
      list_all2 records (map fst (filter snd (zip (parsed (produtos two_products)) oks))) new)"
proof -
  let ?b = "failing {Goto ''https://shop/p1''}"
  have f: "fst (cart_loop ?b [] [] (produtos two_products)) =
      Inr [\<lparr>url = ''https://shop/p2'', qty = ''2.00'', added = True\<rparr>]"
    by (simp add: run_defs example_defs examples)
  then have h: "cart_loop ?b [] [] (produtos two_products) =
      (Inr [\<lparr>url = ''https://shop/p2'', qty = ''2.00'', added = True\<rparr>],
       snd (cart_loop ?b [] [] (produtos two_products)))"
    by (simp add: prod_eq_iff)
  have r: "rsplit_colon ''https://shop/p1:1'' = Some (''https://shop/p1'', ''1'')"
    by (rule rsplit_examples)
  have n: "normalize_qty ''1'' = Inr ''1.00''"
    by (rule normalize_examples)
  have g: "raises ?b [] (Goto ''https://shop/p1'')"
    by (simp add: failing_def calm_def)
  note inst = one_outcome_per_navigated_line
    [where l = "''https://shop/p1:1''" and u = "''https://shop/p1''" and raw = "''1''"
       and q = "''1.00''" and b = ?b and tr = "[]" and its = "[]"
       and rest = "[''https://shop/p2:2'']" and ls = "produtos two_products"
       and its' = "[\<lparr>url = ''https://shop/p2'', qty = ''2.00'', added = True\<rparr>]"
       and tr' = "snd (cart_loop ?b [] [] (produtos two_products))"]
  from inst [THEN conjunct1, THEN mp, OF conjI [OF r conjI [OF n g]]]
  have a: "process_line ?b [] [] ''https://shop/p1:1'' =
      (Inr [], [(Goto ''https://shop/p1'', Raised)])"
    and c: "cart_loop ?b [] [] (''https://shop/p1:1'' # [''https://shop/p2:2'']) =
      cart_loop ?b [(Goto ''https://shop/p1'', Raised)] [] [''https://shop/p2:2'']"
    by simp_all
  note out = inst [THEN conjunct2, THEN mp, OF h]
  show ?thesis
    by (intro conjI) (rule r n g a c f out)+
qed

text \<open>
  The claim as it was stated fails: both lines split at their colon, the navigation
  to the first raises, and the result holds one item, for the second line only.
\<close>

theorem failed_navigation_records_nothing:
  "parsed (produtos two_products) =
     [(''https://shop/p1'', ''1''), (''https://shop/p2'', ''2'')] \<and>
   checkout_endpoint default_config (failing {Goto ''https://shop/p1''}) two_products =
     Http200 \<lparr>items = [\<lparr>url = ''https://shop/p2'', qty = ''2.00'', added = True\<rparr>],
              checkout_state = ''pedido_enviado'', redirect_url = Some order_received,
              status = ''success''\<rparr>"
  by (simp add: run_defs example_defs examples parsed_def map_filter_simps)

subsection \<open>Submitting the order\<close>

text \<open>
  Claim C3, as amended. When the click on the order button raises, the run ends in an
  exception and the endpoint answers 500: such a run is never reported as a success.
  A missing redirect is not detected: nothing compares or awaits the address of the
  page. Whenever the run returns a result, the click returned and that result carries
  \<open>pedido_enviado\<close> and whatever \<open>page.url\<close> gave after the delay; and whenever the
  click returns and the session is then closed and Playwright stopped without an
  exception, the endpoint answers with \<open>status = success\<close> and that address.
\<close>

theorem order_click_failure_aborts:
  "((Click place_order, Raised) \<in> set (snd (process_request cfg b data)) \<longrightarrow>
      isl (fst (process_request cfg b data)) \<and>
      (\<exists>e. checkout_endpoint cfg b data = Http500 e)) \<and>
   (\<forall>res. fst (process_request cfg b data) = Inr res \<longrightarrow>
      (\<exists>u. checkout_state res = ''pedido_enviado'' \<and> redirect_url res = Some u \<and>
         (Click place_order, Returned) \<in> set (snd (process_request cfg b data)) \<and>
         (ReadUrl, RetStr u) \<in> set (snd (process_request cfg b data)))) \<and>
   ((Click place_order, Returned) \<in> set (snd (process_request cfg b data)) \<and>
    (CloseBrowser, Returned) \<in> set (snd (process_request cfg b data)) \<and>
    (PlaywrightStop, Returned) \<in> set (snd (process_request cfg b data)) \<longrightarrow>
      (\<exists>its u. (ReadUrl, RetStr u) \<in> set (snd (process_request cfg b data)) \<and>
         checkout_endpoint cfg b data =
           Http200 \<lparr>items = its, checkout_state = ''pedido_enviado'',
                    redirect_url = Some u, status = ''success''\<rparr>))"
proof -
  define r where "r = fst (process_request cfg b data)"
  define tr where "tr = snd (process_request cfg b data)"
  have shape: "run_shape cfg r tr"
    unfolding r_def tr_def by (rule process_request_shape) simp
  have failed: "isl r" if click: "(Click place_order, Raised) \<in> set tr"
  proof -
    from shape consider
      (no_start) "isl r"
    | (session) sh pay sub fin oc rb rf where
        "tr = (PlaywrightStart, Returned) # map (\<lambda>a. (a, Returned)) (acquire cfg) @ sh @ pay
               @ sub @ (Delay 10000 10000, Returned) # fin @ [(PlaywrightStop, oc)]"
        "\<forall>ev\<in>set sh. shopping (fst ev)" "body_events rb pay sub" "close_events rb rf fin"
        "oc = Raised \<and> isl r \<or> oc = Returned \<and> r = rf"
      unfolding run_shape_def by blast
    then show ?thesis
    proof cases
      case no_start
      then show ?thesis .
    next
      case session
      have "(Click place_order, Raised) \<notin> set fin"
        using close_events_calls [OF session(4)] by fastforce
      moreover have "(Click place_order, Raised) \<notin> set sh"
        using session(2) by (rule not_shopping_place_order)
      moreover have "(Click place_order, Raised) \<notin> set pay"
        using session(3) by (auto simp: body_events_def payment_events_no_click)
      ultimately have "(Click place_order, Raised) \<in> set sub"
        using click session(1) by (auto simp: acquire_def)
      with session(3) have "isl rb"
        by (auto simp: body_events_def submit_events_def)
      with session(4) have "isl rf" by (rule close_events_isl)
      with session(5) show ?thesis by auto
    qed
  qed
  have sent: "\<exists>u. checkout_state res = ''pedido_enviado'' \<and> redirect_url res = Some u \<and>
      (Click place_order, Returned) \<in> set tr \<and> (ReadUrl, RetStr u) \<in> set tr"
    if ok: "r = Inr res" for res
  proof -
    from shape ok obtain sh pay sub fin oc rb rf where session:
        "tr = (PlaywrightStart, Returned) # map (\<lambda>a. (a, Returned)) (acquire cfg) @ sh @ pay
               @ sub @ (Delay 10000 10000, Returned) # fin @ [(PlaywrightStop, oc)]"
        "body_events rb pay sub" "close_events rb rf fin" "r = rf"
      unfolding run_shape_def by auto
    from session(3,4) ok have "rb = Inr res" by (auto simp: close_events_def)
    with session(2) obtain u where
      "checkout_state res = ''pedido_enviado''" "redirect_url res = Some u"
      "sub = [(Click place_order, Returned), (Delay 6000 20000, Returned), (ReadUrl, RetStr u)]"
      by (auto simp: body_events_def submit_events_def)
    with session(1) show ?thesis by simp
  qed
  have success: "\<exists>its u. (ReadUrl, RetStr u) \<in> set tr \<and>
      r = Inr \<lparr>items = its, checkout_state = ''pedido_enviado'', redirect_url = Some u\<rparr>"
    if click: "(Click place_order, Returned) \<in> set tr"
      and closed: "(CloseBrowser, Returned) \<in> set tr"
      and stopped: "(PlaywrightStop, Returned) \<in> set tr"
  proof -
    from shape consider
      (no_start) "tr = [(PlaywrightStart, Raised)]"
    | (no_session) acq oc where "tr = (PlaywrightStart, Returned) # acq @ [(PlaywrightStop, oc)]"
        "\<forall>ev\<in>set acq. fst ev = Launch \<or> fst ev = NewContext \<or> fst ev = NewPage"
    | (session) sh pay sub fin oc rb rf where
        "tr = (PlaywrightStart, Returned) # map (\<lambda>a. (a, Returned)) (acquire cfg) @ sh @ pay
               @ sub @ (Delay 10000 10000, Returned) # fin @ [(PlaywrightStop, oc)]"
        "\<forall>ev\<in>set sh. shopping (fst ev)" "body_events rb pay sub" "close_events rb rf fin"
        "oc = Raised \<and> isl r \<or> oc = Returned \<and> r = rf"
      unfolding run_shape_def by blast
    then show ?thesis
    proof cases
      case no_start
      with click show ?thesis by simp
    next
      case no_session
      with click show ?thesis by auto
    next
      case session
      have sh: "ev \<notin> set sh" if "\<not> shopping (fst ev)" for ev
        using session(2) that by auto
      have fin: "ev \<notin> set fin" if "fst ev \<noteq> CloseContext" "fst ev \<noteq> CloseBrowser" for ev
        using close_events_calls [OF session(4), of ev] that by auto
      have body: "ev \<notin> set pay \<union> set sub"
        if "fst ev \<notin> {IsChecked pix, Check pix, Click place_order, Delay 6000 20000, ReadUrl}"
        for ev
        using body_events_calls [OF session(3), of ev] that by auto
      have pay: "(Click place_order, Returned) \<notin> set pay"
        using session(3) by (auto simp: body_events_def payment_events_no_click)
      from click session(1) sh [of "(Click place_order, Returned)"]
        fin [of "(Click place_order, Returned)"] pay
      have "(Click place_order, Returned) \<in> set sub"
        by (auto simp: acquire_def)
      with session(3) obtain its u where sent:
        "rb = Inr \<lparr>items = its, checkout_state = ''pedido_enviado'', redirect_url = Some u\<rparr>"
        "sub = [(Click place_order, Returned), (Delay 6000 20000, Returned), (ReadUrl, RetStr u)]"
        by (auto simp: body_events_def submit_events_def)
      from closed session(1) sh [of "(CloseBrowser, Returned)"]
        body [of "(CloseBrowser, Returned)"]
      have "(CloseBrowser, Returned) \<in> set fin"
        by (auto simp: acquire_def)
      with session(4) have "rf = rb"
        by (auto simp: close_events_def)
      moreover from stopped session(1) sh [of "(PlaywrightStop, Returned)"]
        body [of "(PlaywrightStop, Returned)"] fin [of "(PlaywrightStop, Returned)"]
      have "oc = Returned"
        by (auto simp: acquire_def)
      ultimately have "r = rb" using session(5) by auto
      with sent session(1) show ?thesis by simp
    qed
  qed
  from failed have "\<exists>e. checkout_endpoint cfg b data = Http500 e"
    if "(Click place_order, Raised) \<in> set tr"
    using that by (cases r) (auto simp: checkout_endpoint_def r_def)
  moreover from success have "\<exists>its u. (ReadUrl, RetStr u) \<in> set tr \<and>
      checkout_endpoint cfg b data =
        Http200 \<lparr>items = its, checkout_state = ''pedido_enviado'',
                 redirect_url = Some u, status = ''success''\<rparr>"
    if "(Click place_order, Returned) \<in> set tr" "(CloseBrowser, Returned) \<in> set tr"
      "(PlaywrightStop, Returned) \<in> set tr"
    using that by (fastforce simp: checkout_endpoint_def r_def)
  ultimately show ?thesis using failed sent unfolding r_def tr_def by blast
qed

text \<open>
  The theorem at a browser whose order button raises, and at the browser in which
  nothing raises.
\<close>

theorem order_click_failure_aborts_witness:
  "(Click place_order, Raised)
     \<in> set (snd (process_request default_config (failing {Click place_order}) one_product)) \<and>
   isl (fst (process_request default_config (failing {Click place_order}) one_product)) \<and>
   fst (process_request default_config calm one_product) =
     Inr \<lparr>items = [\<lparr>url = ''https://shop/p1'', qty = ''0.05'', added = True\<rparr>],
          checkout_state = ''pedido_enviado'', redirect_url = Some order_received\<rparr> \<and>
   (Click place_order, Returned) \<in> set (snd (process_request default_config calm one_product)) \<and>
   (CloseBrowser, Returned) \<in> set (snd (process_request default_config calm one_product)) \<and>
   (PlaywrightStop, Returned) \<in> set (snd (process_request default_config calm one_product)) \<and>
   (\<exists>its u. checkout_endpoint default_config calm one_product =
      Http200 \<lparr>items = its, checkout_state = ''pedido_enviado'', redirect_url = Some u,
               status = ''success''\<rparr>)"
proof -
  let ?calm = "snd (process_request default_config calm one_product)"
  have h: "(Click place_order, Raised)
      \<in> set (snd (process_request default_config (failing {Click place_order}) one_product))"
    by (simp add: run_defs example_defs examples place_order_def)
  have c: "(CloseBrowser, Returned) \<in> set ?calm"
    by (simp add: run_defs example_defs examples)
  have s: "(PlaywrightStop, Returned) \<in> set ?calm"
    by (simp add: run_defs example_defs examples)
  from order_click_failure_aborts [of default_config "failing {Click place_order}" one_product]
    order_click_failure_aborts [of default_config calm one_product] h c s calm_one_product
  show ?thesis by blast
qed

text \<open>
  The claim as it was stated fails: when the page stays on the checkout address after
  the click, the endpoint still answers with \<open>status = success\<close>.
\<close>

theorem missing_redirect_is_success:
  "checkout_endpoint default_config stays_on_checkout one_product =
     Http200 \<lparr>items = [\<lparr>url = ''https://shop/p1'', qty = ''0.05'', added = True\<rparr>],
              checkout_state = ''pedido_enviado'',
              redirect_url = Some (CHECKOUT_URL default_config), status = ''success''\<rparr>"
  by (simp add: run_defs example_defs examples)

subsection \<open>The error banner\<close>

lemma at_banner_scan_trace:
  assumes "at_banner_scan cfg b data = Some (its, tr)"
  shows "\<exists>tr1 sh. tr = tr1 @ sh \<and> (\<forall>ev\<in>set sh. shopping (fst ev)) \<and>
           tr1 = (PlaywrightStart, Returned) # map (\<lambda>a. (a, Returned)) (acquire cfg) \<and>
           call b [] PlaywrightStart = (None, [(PlaywrightStart, Returned)]) \<and>
           steps b [(PlaywrightStart, Returned)] (acquire cfg) = (None, tr1) \<and>
           to_checkout_form cfg b data tr1 = (Inr its, tr)"
proof -
  from assms obtain tr0 tr1 where
    start: "call b [] PlaywrightStart = (None, tr0)" and
    acq: "steps b tr0 (acquire cfg) = (None, tr1)" and
    form: "to_checkout_form cfg b data tr1 = (Inr its, tr)"
    by (auto simp: at_banner_scan_def split: prod.splits option.splits sum.splits)
  from start call_cases [of b "[]" PlaywrightStart] have tr0: "tr0 = [(PlaywrightStart, Returned)]"
    by auto
  from steps_None [OF acq] tr0
  have tr1: "tr1 = (PlaywrightStart, Returned) # map (\<lambda>a. (a, Returned)) (acquire cfg)"
    by simp
  from to_checkout_form_shopping [OF form] obtain sh where
    "tr = tr1 @ sh" "\<forall>ev\<in>set sh. shopping (fst ev)" by blast
  with start acq form tr0 tr1 show ?thesis by blast
qed

text \<open>
  Claim C4. When the run reaches the scan after the form is filled and the content of
  the page then holds the banner text, the run ends in an exception, the endpoint
  answers 500, and the whole trace of the run holds no call of the payment step and no
  click on the order button.
\<close>

theorem banner_aborts_before_payment:
  assumes "at_banner_scan cfg b data = Some (its, tr)"
    and "page_content b tr = (Inr h, tr')"
    and "contains error_banner h"
  shows "isl (fst (process_request cfg b data)) \<and>
         (\<exists>e. checkout_endpoint cfg b data = Http500 e) \<and>
         (\<forall>ev\<in>set (snd (process_request cfg b data)).
            \<not> payment_call ev \<and> fst ev \<noteq> Click place_order)"
proof -
  from at_banner_scan_trace [OF assms(1)] obtain tr1 sh where
    tr: "tr = tr1 @ sh" and sh: "\<forall>ev\<in>set sh. shopping (fst ev)" and
    tr1: "tr1 = (PlaywrightStart, Returned) # map (\<lambda>a. (a, Returned)) (acquire cfg)" and
    start: "call b [] PlaywrightStart = (None, [(PlaywrightStart, Returned)])" and
    acq: "steps b [(PlaywrightStart, Returned)] (acquire cfg) = (None, tr1)" and
    form: "to_checkout_form cfg b data tr1 = (Inr its, tr)"
    by blast
  from assms(2) have tr': "tr' = tr @ [(Content, RetStr h)]"
    by (auto simp: page_content_def split: if_splits)
  from form assms(2,3)
  have body: "try_body cfg b data tr1 = (Inl (HTTPException 500 banner_detail), tr')"
    by (simp add: try_body_def from_banner_scan_def)
  obtain rf trf where fin: "finally_close b (Inl (HTTPException 500 banner_detail), tr') = (rf, trf)"
    by (cases "finally_close b (Inl (HTTPException 500 banner_detail), tr')")
  from finally_close_events [OF fin] obtain fin where
    trf: "trf = tr' @ (Delay 10000 10000, Returned) # fin" and
    closing: "close_events (Inl (HTTPException 500 banner_detail)) rf fin"
    by blast
  from closing have rf: "isl rf" by (rule close_events_isl) simp
  from acq body fin have inside: "in_playwright cfg b data [(PlaywrightStart, Returned)] = (rf, trf)"
    by (simp add: in_playwright_def)
  obtain r trz where run: "process_request cfg b data = (r, trz)"
    by (cases "process_request cfg b data")
  with start inside call_cases [of b trf PlaywrightStop] rf
  have r: "isl r" and trz: "\<exists>oc. trz = trf @ [(PlaywrightStop, oc)]"
    by (auto simp: process_request_def)
  have quiet: "\<not> payment_call ev \<and> fst ev \<noteq> Click place_order" if "ev \<in> set trz" for ev
  proof -
    from that trz trf tr' tr tr1 consider
      "fst ev = PlaywrightStart" | "fst ev \<in> set (acquire cfg)" | "ev \<in> set sh"
      | "fst ev = Content" | "fst ev = Delay 10000 10000" | "ev \<in> set fin"
      | "fst ev = PlaywrightStop"
      by auto
    then show ?thesis
    proof cases
      case 2
      then show ?thesis by (auto simp: acquire_def payment_call_def)
    next
      case 3
      with sh have "shopping (fst ev)" by simp
      then show ?thesis by (auto simp: payment_call_def)
    next
      case 6
      from close_events_calls [OF closing this] show ?thesis
        by (auto simp: payment_call_def)
    qed (simp_all add: payment_call_def)
  qed
  from r have "\<exists>e. checkout_endpoint cfg b data = Http500 e"
    by (cases r) (auto simp: checkout_endpoint_def run)
  with r quiet run show ?thesis by simp
qed

text \<open>The theorem at a browser whose checkout page shows the banner.\<close>

theorem banner_aborts_before_payment_witness:
  "at_banner_scan default_config shows_banner one_product \<noteq> None \<and>
   contains error_banner (html shows_banner []) \<and>
   checkout_endpoint default_config shows_banner one_product =
     Http500 (HTTPException 500 banner_detail) \<and>
   count_calls (Click place_order)
     (snd (process_request default_config shows_banner one_product)) = 0"
proof -
  let ?its = "[\<lparr>url = ''https://shop/p1'', qty = ''0.05'', added = True\<rparr>]"
  define tr where "tr = snd (the (at_banner_scan default_config shows_banner one_product))"
  have h1: "at_banner_scan default_config shows_banner one_product = Some (?its, tr)"
    unfolding tr_def
    by (simp add: at_banner_scan_def run_defs example_defs examples del: append.simps)
  have h2: "page_content shows_banner tr =
      (Inr (html shows_banner []), tr @ [(Content, RetStr (html shows_banner []))])"
    by (simp add: page_content_def example_defs)
  have h3: "contains error_banner (html shows_banner [])"
    by (simp add: example_defs)
  have e: "checkout_endpoint default_config shows_banner one_product =
      Http500 (HTTPException 500 banner_detail)"
    by (simp add: run_defs example_defs examples)
  from banner_aborts_before_payment [OF h1 h2 h3]
  have "\<forall>ev\<in>set (snd (process_request default_config shows_banner one_product)).
      fst ev \<noteq> Click place_order"
    by blast
  then have "count_calls (Click place_order)
      (snd (process_request default_config shows_banner one_product)) = 0"
    by (rule count_calls_none)
  with h1 h3 e show ?thesis by simp
qed

subsection \<open>Releasing the session\<close>

lemma close_events_counts:
  "close_events rb rf fin \<Longrightarrow>
     count_calls CloseContext fin = 1 \<and>
     count_calls CloseBrowser fin = (if (CloseContext, Returned) \<in> set fin then 1 else 0)"
  by (auto simp: close_events_def count_calls_simps)

text \<open>
  Claim C5, as amended. In every run in which the browser, the context and the page
  were created, whatever happens in the \<open>try\<close> block (success, items skipped or not
  added, an abort at the checkout navigation, at the banner or at the submission),
  \<open>context.close()\<close> is called exactly once; \<open>browser.close()\<close> is called exactly
  once when \<open>context.close()\<close> returned, and not at all when it raised.
\<close>

theorem session_closed_once:
  assumes "(NewPage, Returned) \<in> set (snd (process_request cfg b data))"
  shows "count_calls CloseContext (snd (process_request cfg b data)) = 1 \<and>
         count_calls CloseBrowser (snd (process_request cfg b data)) =
           (if (CloseContext, Returned) \<in> set (snd (process_request cfg b data)) then 1 else 0)"
proof -
  define r where "r = fst (process_request cfg b data)"
  define tr where "tr = snd (process_request cfg b data)"
  have shape: "run_shape cfg r tr"
    unfolding r_def tr_def by (rule process_request_shape) simp
  from assms have page: "(NewPage, Returned) \<in> set tr" by (simp add: tr_def)
  from shape consider
    (no_start) "tr = [(PlaywrightStart, Raised)]"
  | (no_session) acq oc where "tr = (PlaywrightStart, Returned) # acq @ [(PlaywrightStop, oc)]"
      "(NewPage, Returned) \<notin> set acq"
  | (session) sh pay sub fin oc rb rf where
      "tr = (PlaywrightStart, Returned) # map (\<lambda>a. (a, Returned)) (acquire cfg) @ sh @ pay
             @ sub @ (Delay 10000 10000, Returned) # fin @ [(PlaywrightStop, oc)]"
      "\<forall>ev\<in>set sh. shopping (fst ev)" "body_events rb pay sub" "close_events rb rf fin"
    unfolding run_shape_def by blast
  then have "count_calls CloseContext tr = 1 \<and>
      count_calls CloseBrowser tr = (if (CloseContext, Returned) \<in> set tr then 1 else 0)"
  proof cases
    case no_start
    with page show ?thesis by simp
  next
    case no_session
    with page show ?thesis by simp
  next
    case session
    have sh: "count_calls CloseContext sh = 0" "count_calls CloseBrowser sh = 0"
      "(CloseContext, Returned) \<notin> set sh"
      using session(2) by (auto intro!: count_calls_none)
    have body: "count_calls CloseContext (pay @ sub) = 0"
      "count_calls CloseBrowser (pay @ sub) = 0" "(CloseContext, Returned) \<notin> set (pay @ sub)"
      using body_events_calls [OF session(3)] by (fastforce intro!: count_calls_none)+
    from close_events_counts [OF session(4)] sh body show ?thesis
      by (simp add: session(1) count_calls_simps acquire_def)
  qed
  then show ?thesis by (simp add: tr_def)
qed

text \<open>The theorem at a run that aborts at the submission.\<close>

theorem session_closed_once_witness:
  "(NewPage, Returned)
     \<in> set (snd (process_request default_config (failing {Click place_order}) one_product)) \<and>
   count_calls CloseContext
     (snd (process_request default_config (failing {Click place_order}) one_product)) = 1 \<and>
   count_calls CloseBrowser
     (snd (process_request default_config (failing {Click place_order}) one_product)) = 1"
proof -
  let ?tr = "snd (process_request default_config (failing {Click place_order}) one_product)"
  have h: "(NewPage, Returned) \<in> set ?tr"
    by (simp add: run_defs example_defs examples)
  have c: "(CloseContext, Returned) \<in> set ?tr"
    by (simp add: run_defs example_defs examples)
  from session_closed_once [OF h] h c show ?thesis by simp
qed

text \<open>
  The claim as it was stated fails: when \<open>context.close()\<close> raises, the \<open>finally\<close> block
  ends there and \<open>browser.close()\<close> is never called.
\<close>

theorem browser_left_open_when_context_close_fails:
  "(NewPage, Returned)
     \<in> set (snd (process_request default_config (failing {CloseContext}) one_product)) \<and>
   count_calls CloseBrowser
     (snd (process_request default_config (failing {CloseContext}) one_product)) = 0"
  by (simp add: run_defs example_defs examples count_calls_simps)

subsection \<open>Selecting the region\<close>

text \<open>
  Claim C6, as amended. The region is selected by two open, type and confirm cycles
  in one \<open>try\<close> block, with no check between them of what the first achieved. In a
  run that has reached the checkout page, either all calls of both cycles are made
  and return, or the sequence ends at the first call that raises and the calls after
  it (the second cycle, when the call belongs to the first) are not made. In both
  cases the run goes on to the scan for the banner with the items it had.
\<close>

theorem region_selection_two_cycles_unless_raised:
  assumes "cart_loop b tr [] (produtos data) = (Inr its, tr1)"
    and "call b tr1 (Goto (CHECKOUT_URL cfg)) = (None, tr2)"
  shows "region_actions =
           [Click state_container, Delay 400 700, Fill search_field sao_paulo, Press ''Enter'']
           @ [Delay 400 700]
           @ [Click state_container, Fill search_field sao_paulo, Press ''Enter''] \<and>
         (\<exists>evs. to_checkout_form cfg b data tr =
                  (Inr its, fill_fields b tr2 (mapping (checkout data)) @ evs) \<and>
            (evs = map (\<lambda>a. (a, Returned)) region_actions \<or>
             (\<exists>pre a post. region_actions = pre @ a # post \<and>
                evs = map (\<lambda>a. (a, Returned)) pre @ [(a, Raised)])))"
proof -
  let ?filled = "fill_fields b tr2 (mapping (checkout data))"
  obtain r tr3 where st: "steps b ?filled region_actions = (r, tr3)"
    by (cases "steps b ?filled region_actions")
  have "\<exists>evs. tr3 = ?filled @ evs \<and>
      (evs = map (\<lambda>a. (a, Returned)) region_actions \<or>
       (\<exists>pre a post. region_actions = pre @ a # post \<and>
          evs = map (\<lambda>a. (a, Returned)) pre @ [(a, Raised)]))"
  proof (cases r)
    case None
    with st steps_None show ?thesis by blast
  next
    case (Some e)
    with st steps_Some [of b ?filled region_actions e tr3] show ?thesis by blast
  qed
  moreover from assms st have "to_checkout_form cfg b data tr = (Inr its, tr3)"
    by (simp add: to_checkout_form_def select_region_def)
  ultimately show ?thesis
    by (auto simp: region_actions_def)
qed

text \<open>The theorem at a browser in which the dropdown cannot be opened.\<close>

theorem region_selection_two_cycles_unless_raised_witness:
  "fst (cart_loop (failing {Click state_container}) [] [] (produtos one_product)) =
     Inr [\<lparr>url = ''https://shop/p1'', qty = ''0.05'', added = True\<rparr>] \<and>
   fst (to_checkout_form default_config (failing {Click state_container}) one_product []) =
     Inr [\<lparr>url = ''https://shop/p1'', qty = ''0.05'', added = True\<rparr>]"
proof -
  let ?b = "failing {Click state_container}"
  let ?its = "[\<lparr>url = ''https://shop/p1'', qty = ''0.05'', added = True\<rparr>]"
  define tr1 where "tr1 = snd (cart_loop ?b [] [] (produtos one_product))"
  have f: "fst (cart_loop ?b [] [] (produtos one_product)) = Inr ?its"
    by (simp add: run_defs example_defs examples selector_defs)
  then have h1: "cart_loop ?b [] [] (produtos one_product) = (Inr ?its, tr1)"
    by (simp add: tr1_def prod_eq_iff)
  have h2: "call ?b tr1 (Goto (CHECKOUT_URL default_config)) =
      (None, tr1 @ [(Goto (CHECKOUT_URL default_config), Returned)])"
    by (simp add: call_def example_defs)
  from region_selection_two_cycles_unless_raised [OF h1 h2] f show ?thesis
    by auto
qed

text \<open>
  The claim as it was stated fails: when the first click on the dropdown raises, that
  click is the only call of the region selection in the whole run, no cycle is
  performed, and the order is sent all the same.
\<close>

theorem region_selection_stops_at_first_failure:
  "checkout_endpoint default_config (failing {Click state_container}) one_product =
     Http200 \<lparr>items = [\<lparr>url = ''https://shop/p1'', qty = ''0.05'', added = True\<rparr>],
              checkout_state = ''pedido_enviado'', redirect_url = Some order_received,
              status = ''success''\<rparr> \<and>
   filter (\<lambda>ev. fst ev \<in> set region_actions)
     (snd (process_request default_config (failing {Click state_container}) one_product)) =
     [(Click state_container, Raised)]"
  by (simp add: run_defs example_defs examples selector_defs)

subsection \<open>Selecting the payment method\<close>

lemma payment_events_checked:
  assumes "payment_events pay"
  shows "((Check pix, oc) \<in> set pay \<longrightarrow> pay = [(IsChecked pix, RetBool False), (Check pix, oc)]) \<and>
         ((IsChecked pix, RetBool True) \<in> set pay \<longrightarrow> (\<forall>oc. (Check pix, oc) \<notin> set pay)) \<and>
         ((IsChecked pix, RetBool False) \<in> set pay \<longrightarrow> (\<exists>oc. (Check pix, oc) \<in> set pay))"
  using assms by (auto simp: payment_events_def)

lemma submit_events_click: "submit_events rb sub \<Longrightarrow> \<exists>oc. (Click place_order, oc) \<in> set sub"
  by (auto simp: submit_events_def)

lemma run_payment_part:
  assumes "run_shape cfg r tr" and "ev \<in> set tr" and "payment_call ev"
  shows "\<exists>pre pay sub post rb. tr = pre @ pay @ sub @ post \<and> ev \<in> set pay \<and>
           payment_events pay \<and> submit_events rb sub \<and>
           (\<forall>e\<in>set pre \<union> set sub \<union> set post. \<not> payment_call e)"
proof -
  from assms(1) consider
    (no_start) "tr = [(PlaywrightStart, Raised)]"
  | (no_session) acq oc where "tr = (PlaywrightStart, Returned) # acq @ [(PlaywrightStop, oc)]"
      "\<forall>ev\<in>set acq. fst ev = Launch \<or> fst ev = NewContext \<or> fst ev = NewPage"
  | (session) sh pay sub fin oc rb rf where
      "tr = (PlaywrightStart, Returned) # map (\<lambda>a. (a, Returned)) (acquire cfg) @ sh @ pay
             @ sub @ (Delay 10000 10000, Returned) # fin @ [(PlaywrightStop, oc)]"
      "\<forall>ev\<in>set sh. shopping (fst ev)" "body_events rb pay sub" "close_events rb rf fin"
    unfolding run_shape_def by blast
  then show ?thesis
  proof cases
    case no_start
    with assms(2,3) show ?thesis by (simp add: payment_call_def)
  next
    case no_session
    with assms(2,3) show ?thesis by (auto simp: payment_call_def)
  next
    case session
    define pre where
      "pre = (PlaywrightStart, Returned) # map (\<lambda>a. (a, Returned)) (acquire cfg) @ sh"
    define post where "post = (Delay 10000 10000, Returned) # fin @ [(PlaywrightStop, oc)]"
    have tr: "tr = pre @ pay @ sub @ post"
      by (simp add: session(1) pre_def post_def)
    have pre: "\<forall>e\<in>set pre. \<not> payment_call e"
      using session(2) by (auto simp: pre_def acquire_def payment_call_def)
    have post: "\<forall>e\<in>set post. \<not> payment_call e"
      using close_events_calls [OF session(4)] by (fastforce simp: post_def payment_call_def)
    have sub: "\<forall>e\<in>set sub. \<not> payment_call e"
      using session(3) submit_events_calls [of rb sub]
      by (fastforce simp: body_events_def payment_call_def)
    from assms(2,3) tr pre post sub have "ev \<in> set pay" by auto
    with session(3) have "payment_events pay" "submit_events rb sub"
      by (auto simp: body_events_def)
    with tr \<open>ev \<in> set pay\<close> pre post sub show ?thesis by blast
  qed
qed

text \<open>
  Claim C7. In every run, the payment option is selected only right after a check
  that answered "not selected"; when the check answers "selected" the selection is
  never called, and when it answers "not selected" it is called. The step is not
  fatal: whenever a call of the payment step was made, raised or not, the click on
  the order button was made after it.
\<close>

theorem payment_checked_before_selected:
  "(\<forall>oc. (Check pix, oc) \<in> set (snd (process_request cfg b data)) \<longrightarrow>
      (\<exists>pre post. snd (process_request cfg b data) =
         pre @ (IsChecked pix, RetBool False) # (Check pix, oc) # post)) \<and>
   ((IsChecked pix, RetBool True) \<in> set (snd (process_request cfg b data)) \<longrightarrow>
      (\<forall>oc. (Check pix, oc) \<notin> set (snd (process_request cfg b data)))) \<and>
   ((IsChecked pix, RetBool False) \<in> set (snd (process_request cfg b data)) \<longrightarrow>
      (\<exists>oc. (Check pix, oc) \<in> set (snd (process_request cfg b data)))) \<and>
   (\<forall>ev. ev \<in> set (snd (process_request cfg b data)) \<and> payment_call ev \<longrightarrow>
      (\<exists>oc. (Click place_order, oc) \<in> set (snd (process_request cfg b data))))"
proof -
  define tr where "tr = snd (process_request cfg b data)"
  have shape: "run_shape cfg (fst (process_request cfg b data)) tr"
    unfolding tr_def by (rule process_request_shape) simp
  have only_when_unselected:
    "\<exists>pre post. tr = pre @ (IsChecked pix, RetBool False) # (Check pix, oc) # post"
    if "(Check pix, oc) \<in> set tr" for oc
  proof -
    from run_payment_part [OF shape that] obtain pre pay sub post where
      "tr = pre @ pay @ sub @ post" "(Check pix, oc) \<in> set pay" "payment_events pay"
      by (auto simp: payment_call_def)
    with payment_events_checked [of pay oc]
    have "tr = pre @ (IsChecked pix, RetBool False) # (Check pix, oc) # (sub @ post)"
      by simp
    then show ?thesis by blast
  qed
  have not_reselected: "(Check pix, oc) \<notin> set tr"
    if "(IsChecked pix, RetBool True) \<in> set tr" for oc
  proof -
    from run_payment_part [OF shape that] obtain pre pay sub post where
      "tr = pre @ pay @ sub @ post" "(IsChecked pix, RetBool True) \<in> set pay"
      "payment_events pay" "\<forall>e\<in>set pre \<union> set sub \<union> set post. \<not> payment_call e"
      by (auto simp: payment_call_def)
    moreover have "payment_call (Check pix, oc)"
      by (simp add: payment_call_def)
    ultimately show ?thesis
      using payment_events_checked [of pay oc] by fastforce
  qed
  have selected: "\<exists>oc. (Check pix, oc) \<in> set tr"
    if "(IsChecked pix, RetBool False) \<in> set tr"
  proof -
    from run_payment_part [OF shape that] obtain pre pay sub post where
      "tr = pre @ pay @ sub @ post" "(IsChecked pix, RetBool False) \<in> set pay"
      "payment_events pay"
      by (auto simp: payment_call_def)
    with payment_events_checked [of pay] show ?thesis by auto
  qed
  have goes_on: "\<exists>oc. (Click place_order, oc) \<in> set tr"
    if "ev \<in> set tr" "payment_call ev" for ev
  proof -
    from run_payment_part [OF shape that] obtain pre pay sub post rb where
      "tr = pre @ pay @ sub @ post" "submit_events rb sub"
      by blast
    with submit_events_click [of rb sub] show ?thesis by auto
  qed
  from only_when_unselected not_reselected selected goes_on show ?thesis
    unfolding tr_def by blast
qed

text \<open>
  The theorem at a browser with the option already selected, at one with the option
  not selected, and at one whose check raises.
\<close>

theorem payment_checked_before_selected_witness:
  "(IsChecked pix, RetBool True)
     \<in> set (snd (process_request default_config pix_preselected one_product)) \<and>
   count_calls (Check pix) (snd (process_request default_config pix_preselected one_product)) = 0 \<and>
   (IsChecked pix, RetBool False) \<in> set (snd (process_request default_config calm one_product)) \<and>
   (Check pix, Returned) \<in> set (snd (process_request default_config calm one_product)) \<and>
   (IsChecked pix, Raised)
     \<in> set (snd (process_request default_config (failing {IsChecked pix}) one_product)) \<and>
   (Click place_order, Returned)
     \<in> set (snd (process_request default_config (failing {IsChecked pix}) one_product))"
proof -
  let ?pre = "snd (process_request default_config pix_preselected one_product)"
  let ?calm = "snd (process_request default_config calm one_product)"
  let ?bad = "snd (process_request default_config (failing {IsChecked pix}) one_product)"
  have h1: "(IsChecked pix, RetBool True) \<in> set ?pre"
    by (simp add: run_defs example_defs examples)
  have h2: "(IsChecked pix, RetBool False) \<in> set ?calm"
    by (simp add: run_defs example_defs examples)
  have h3: "(Check pix, Returned) \<in> set ?calm"
    by (simp add: run_defs example_defs examples)
  have h4: "(IsChecked pix, Raised) \<in> set ?bad"
    by (simp add: run_defs example_defs examples pix_def)
  have h5: "(Click place_order, Returned) \<in> set ?bad"
    by (simp add: run_defs example_defs examples pix_def)
  from payment_checked_before_selected [of default_config pix_preselected one_product] h1
  have "\<forall>ev\<in>set ?pre. fst ev \<noteq> Check pix"
    by fastforce
  then have "count_calls (Check pix) ?pre = 0"
    by (rule count_calls_none)
  with h1 h2 h3 h4 h5 show ?thesis by simp
qed

subsection \<open>Quantities\<close>

text \<open>
  Claim C8, as amended. \<open>normalize_qty\<close> maps \<open>0,5\<close> to \<open>0.50\<close> and \<open>2\<close> to \<open>2.00\<close>,
  and a point is read like a comma. For every string it accepts, the result is
  \<open>nan\<close>, \<open>inf\<close>, \<open>-inf\<close>, or an optional minus sign, one or more digits, a point and
  exactly two digits. Nothing checks that the number is finite or not negative.
\<close>

theorem normalize_qty_two_decimals:
  "normalize_qty ''0,5'' = Inr ''0.50'' \<and> normalize_qty ''2'' = Inr ''2.00'' \<and>
   normalize_qty ''0.5'' = Inr ''0.50'' \<and>
   (\<forall>q s. normalize_qty q = Inr s \<longrightarrow>
      s = ''nan'' \<or> s = ''inf'' \<or> s = ''-inf'' \<or> two_decimals s)"
proof -
  have a: "normalize_qty ''0,5'' = Inr ''0.50''" by code_simp
  have b: "normalize_qty ''2'' = Inr ''2.00''" by code_simp
  have c: "normalize_qty ''0.5'' = Inr ''0.50''" by code_simp
  have d: "s = ''nan'' \<or> s = ''inf'' \<or> s = ''-inf'' \<or> two_decimals s"
    if "normalize_qty q = Inr s" for q s
  proof -
    from that obtain x where "py_float (replace_comma q) = Some x" "s = format_2f x"
      by (auto simp: normalize_qty_def split: option.splits)
    with py_float_wf [of "replace_comma q" x] format_2f_shape [of x] show ?thesis
      by simp
  qed
  from a b c d show ?thesis by blast
qed

text \<open>The theorem at an accepted string with a digit separator and a comma.\<close>

theorem normalize_qty_two_decimals_witness:
  "normalize_qty ''1_000,5'' = Inr ''1000.50'' \<and> two_decimals ''1000.50''"
proof -
  have h: "normalize_qty ''1_000,5'' = Inr ''1000.50''" by code_simp
  have "''1000.50'' \<noteq> ''nan'' \<and> ''1000.50'' \<noteq> ''inf'' \<and> ''1000.50'' \<noteq> ''-inf''"
    by simp
  with normalize_qty_two_decimals h show ?thesis by blast
qed

text \<open>
  The claim as it was stated fails: a negative number and a not-a-number are accepted,
  and their results do not denote a non-negative finite number.
\<close>

theorem normalize_qty_accepts_negative_and_nan:
  "normalize_qty ''-1'' = Inr ''-1.00'' \<and> normalize_qty ''nan'' = Inr ''nan''"
  by code_simp

subsection \<open>A line without a separator\<close>

lemma process_line_no_colon:
  "CHR '':'' \<notin> set linha \<Longrightarrow> process_line b tr its linha = (Inr its, tr)"
  by (simp add: process_line_def rsplit_colon_def)

lemma cart_loop_skips:
  "CHR '':'' \<notin> set linha \<Longrightarrow>
     cart_loop b tr its (xs @ linha # ys) = cart_loop b tr its (xs @ ys)"
proof (induction xs arbitrary: tr its)
  case Nil
  then show ?case by (simp add: process_line_no_colon)
next
  case (Cons x xs)
  then show ?case by (simp split: prod.splits sum.splits)
qed

text \<open>
  Claim C9. A product line with no colon is skipped: the loop body returns the items
  and the trace unchanged (no item, no browser call, no exception), and the whole run
  and the answer of the endpoint are those of the request without that line.
\<close>

theorem line_without_colon_is_skipped:
  assumes "CHR '':'' \<notin> set linha"
  shows "process_line b tr its linha = (Inr its, tr) \<and>
         cart_loop b tr its (xs @ linha # ys) = cart_loop b tr its (xs @ ys) \<and>
         process_request cfg b \<lparr>produtos = xs @ linha # ys, checkout = c\<rparr> =
           process_request cfg b \<lparr>produtos = xs @ ys, checkout = c\<rparr> \<and>
         checkout_endpoint cfg b \<lparr>produtos = xs @ linha # ys, checkout = c\<rparr> =
           checkout_endpoint cfg b \<lparr>produtos = xs @ ys, checkout = c\<rparr>"
proof -
  have form: "to_checkout_form cfg b \<lparr>produtos = xs @ linha # ys, checkout = c\<rparr> =
      to_checkout_form cfg b \<lparr>produtos = xs @ ys, checkout = c\<rparr>"
    using assms
    by (intro ext)
      (simp add: to_checkout_form_def cart_loop_skips split: prod.splits sum.splits option.splits)
  have "process_request cfg b \<lparr>produtos = xs @ linha # ys, checkout = c\<rparr> =
      process_request cfg b \<lparr>produtos = xs @ ys, checkout = c\<rparr>"
    unfolding process_request_def in_playwright_def try_body_def form ..
  with assms show ?thesis
    by (simp add: process_line_no_colon cart_loop_skips checkout_endpoint_def)
qed

text \<open>The theorem at a line without a colon, between two well-formed lines.\<close>

theorem line_without_colon_is_skipped_witness:
  "CHR '':'' \<notin> set ''sem separador'' \<and>
   process_line calm [] [] ''sem separador'' = (Inr [], []) \<and>
   process_request default_config calm
       \<lparr>produtos = [''https://shop/p1:1''] @ ''sem separador'' # [''https://shop/p2:2''],
        checkout = billing\<rparr> =
     process_request default_config calm
       \<lparr>produtos = [''https://shop/p1:1''] @ [''https://shop/p2:2''], checkout = billing\<rparr>"
proof -
  have h: "CHR '':'' \<notin> set ''sem separador''" by simp
  from line_without_colon_is_skipped [OF h, of calm "[]" "[]" "[''https://shop/p1:1'']"
      "[''https://shop/p2:2'']" default_config billing] h
  show ?thesis by blast
qed

subsection \<open>The billing state\<close>

lemma run_fills:
  assumes "run_shape cfg r tr" and "(Fill sel v, oc) \<in> set tr"
  shows "shopping (Fill sel v)"
  using run_shape_events [OF assms] by auto

text \<open>
  Claim C10. Two requests that differ only in the billing state give the same run
  (the same browser calls with the same outcomes, the same result) and the same answer
  of the endpoint. The mapping that is filled has eleven fields, none of them
  \<open>billing_state\<close>, and whatever is typed into the search field of the region dropdown
  is the constant \<open>Sao Paulo\<close>.
\<close>

theorem billing_state_is_ignored:
  assumes "produtos d2 = produtos d1"
    and "checkout d2 = (checkout d1)\<lparr>state := s\<rparr>"
  shows "process_request cfg b d2 = process_request cfg b d1 \<and>
         checkout_endpoint cfg b d2 = checkout_endpoint cfg b d1 \<and>
         length (mapping (checkout d1)) = 11 \<and>
         ''billing_state'' \<notin> set (map fst (mapping (checkout d1))) \<and>
         (\<forall>v oc. (Fill search_field v, oc) \<in> set (snd (process_request cfg b d1)) \<longrightarrow>
            v = sao_paulo)"
proof -
  have "mapping (checkout d2) = mapping (checkout d1)"
    using assms(2) by (simp add: mapping_def)
  with assms(1) have form: "to_checkout_form cfg b d2 = to_checkout_form cfg b d1"
    by (intro ext) (simp add: to_checkout_form_def split: prod.splits sum.splits option.splits)
  have same: "process_request cfg b d2 = process_request cfg b d1"
    unfolding process_request_def in_playwright_def try_body_def form ..
  have "run_shape cfg (fst (process_request cfg b d1)) (snd (process_request cfg b d1))"
    by (rule process_request_shape) simp
  then have typed: "v = sao_paulo"
    if "(Fill search_field v, oc) \<in> set (snd (process_request cfg b d1))" for v oc
    using run_fills that by fastforce
  have fields: "length (mapping (checkout d1)) = 11 \<and>
      ''billing_state'' \<notin> set (map fst (mapping (checkout d1)))"
    by (simp add: mapping_def)
  from same typed fields show ?thesis
    by (simp add: checkout_endpoint_def)
qed

text \<open>The theorem at two requests with the states \<open>SP\<close> and \<open>RJ\<close>.\<close>

theorem billing_state_is_ignored_witness:
  "produtos (one_product\<lparr>checkout := billing\<lparr>state := ''RJ''\<rparr>\<rparr>) = produtos one_product \<and>
   (Fill search_field sao_paulo, Returned)
     \<in> set (snd (process_request default_config calm one_product)) \<and>
   process_request default_config calm (one_product\<lparr>checkout := billing\<lparr>state := ''RJ''\<rparr>\<rparr>) =
     process_request default_config calm one_product"
proof -
  have h1: "produtos (one_product\<lparr>checkout := billing\<lparr>state := ''RJ''\<rparr>\<rparr>) = produtos one_product"
    by simp
  have h2: "checkout (one_product\<lparr>checkout := billing\<lparr>state := ''RJ''\<rparr>\<rparr>)
      = (checkout one_product)\<lparr>state := ''RJ''\<rparr>"
    by (simp add: one_product_def)
  have typed: "(Fill search_field sao_paulo, Returned)
      \<in> set (snd (process_request default_config calm one_product))"
    by (simp add: run_defs example_defs examples)
  from billing_state_is_ignored [OF h1 h2, of default_config calm] h1 typed
  show ?thesis by blast
qed

end
